theory Spec2Isabelle
  imports Main
begin

section \<open>Python primitives\<close>

text \<open>
  The program is Python. Integers are unbounded (\<open>int\<close>), grid and shape cells are the
  integers 0 and 1 and are tested by truthiness (\<open>c \<noteq> 0\<close>). No function of the program
  catches an exception, so a computation that raises (\<open>IndexError\<close>, \<open>KeyError\<close>,
  \<open>ValueError\<close>) is the value \<open>None\<close> and everything after it is skipped.
\<close>

definition truthy :: "int \<Rightarrow> bool" where
  "truthy c = (c \<noteq> 0)"

definition py_all :: "int list \<Rightarrow> bool" where
  "py_all cs = list_all truthy cs"

definition py_any :: "int list \<Rightarrow> bool" where
  "py_any cs = list_ex truthy cs"

definition py_range :: "int \<Rightarrow> int list" where
  "py_range n = map int [0..<nat n]"

definition norm_index :: "nat \<Rightarrow> int \<Rightarrow> nat option" where
  \<comment> \<open>Python list indexing: a negative index counts from the end, anything else out of range raises.\<close>
  "norm_index n i =
     (let j = (if i < 0 then int n + i else i)
      in if 0 \<le> j \<and> j < int n then Some (nat j) else None)"

definition py_getitem :: "'a list \<Rightarrow> int \<Rightarrow> 'a option" where
  "py_getitem xs i = (case norm_index (length xs) i of None \<Rightarrow> None | Some j \<Rightarrow> Some (xs ! j))"

definition py_setitem :: "'a list \<Rightarrow> int \<Rightarrow> 'a \<Rightarrow> 'a list option" where
  "py_setitem xs i v = (case norm_index (length xs) i of None \<Rightarrow> None | Some j \<Rightarrow> Some (xs[j := v]))"

definition py_delitem :: "'a list \<Rightarrow> int \<Rightarrow> 'a list option" where
  "py_delitem xs i =
     (case norm_index (length xs) i of None \<Rightarrow> None | Some j \<Rightarrow> Some (take j xs @ drop (Suc j) xs))"

definition py_pop0 :: "'a list \<Rightarrow> 'a list option" where
  \<comment> \<open>\<open>xs.pop(0)\<close>, the popped element dropped: raises on the empty list.\<close>
  "py_pop0 xs = (case xs of [] \<Rightarrow> None | _ # rest \<Rightarrow> Some rest)"

definition zip_star :: "'a list list \<Rightarrow> 'a list list" where
  \<comment> \<open>\<open>[list(t) for t in zip(*rows)]\<close>: the columns, up to the shortest row.\<close>
  "zip_star rows =
     (case rows of
        [] \<Rightarrow> []
      | r # rs \<Rightarrow> map (\<lambda>i. map (\<lambda>row. row ! i) rows) [0..<fold min (map length rs) (length r)])"

section \<open>game\_engine.py\<close>

subsection \<open>Tetromino\<close>

definition SHAPES :: "string \<Rightarrow> int list list option" where
  "SHAPES = map_of
     [(''I'', [[1, 1, 1, 1]]),
      (''O'', [[1, 1], [1, 1]]),
      (''T'', [[0, 1, 0], [1, 1, 1]]),
      (''S'', [[0, 1, 1], [1, 1, 0]]),
      (''Z'', [[1, 1, 0], [0, 1, 1]]),
      (''L'', [[1, 0], [1, 0], [1, 1]]),
      (''J'', [[0, 1], [0, 1], [1, 1]])]"

record Tetromino =
  ptype :: string
  shape :: "int list list"
  rotation :: int

definition new_Tetromino :: "string \<Rightarrow> Tetromino option" where
  \<comment> \<open>\<open>Tetromino(shape_type)\<close>; \<open>SHAPES[shape_type]\<close> raises KeyError on an unknown type.\<close>
  "new_Tetromino shape_type =
     (case SHAPES shape_type of
        None \<Rightarrow> None
      | Some s \<Rightarrow> Some \<lparr>ptype = shape_type, shape = s, rotation = 0\<rparr>)"

definition rotate :: "Tetromino \<Rightarrow> Tetromino" where
  "rotate p = p\<lparr>shape := zip_star (rev (shape p)), rotation := (rotation p + 1) mod 4\<rparr>"

definition get_width :: "Tetromino \<Rightarrow> int" where
  "get_width p = (case shape p of [] \<Rightarrow> 0 | r # _ \<Rightarrow> int (length r))"

definition get_height :: "Tetromino \<Rightarrow> int" where
  "get_height p = int (length (shape p))"

subsection \<open>GameBoard\<close>

record GameBoard =
  width :: int
  height :: int
  grid :: "int list list"
  score :: int
  lines_cleared :: int
  game_over :: bool

definition new_GameBoard :: "int \<Rightarrow> int \<Rightarrow> GameBoard" where
  "new_GameBoard w h =
     \<lparr>width = w, height = h,
      grid = map (\<lambda>_. map (\<lambda>_. 0) (py_range w)) (py_range h),
      score = 0, lines_cleared = 0, game_over = False\<rparr>"

definition grid_cell :: "int list list \<Rightarrow> int \<Rightarrow> int \<Rightarrow> int option" where
  \<comment> \<open>\<open>grid[y][x]\<close>\<close>
  "grid_cell g y x = (case py_getitem g y of None \<Rightarrow> None | Some row \<Rightarrow> py_getitem row x)"

definition grid_fill :: "int list list \<Rightarrow> int \<Rightarrow> int \<Rightarrow> int list list option" where
  \<comment> \<open>\<open>grid[y][x] = 1\<close>; the rows of a grid are distinct list objects, so only row \<open>y\<close> changes.\<close>
  "grid_fill g y x =
     (case py_getitem g y of
        None \<Rightarrow> None
      | Some row \<Rightarrow>
          (case py_setitem row x 1 of
             None \<Rightarrow> None
           | Some row' \<Rightarrow> py_setitem g y row'))"

text \<open>
  \<open>can_place\<close>: the two nested \<open>enumerate\<close> loops; \<open>by\<close> and \<open>bx\<close> are \<open>y + row_idx\<close> and
  \<open>x + col_idx\<close> of the cell at the head of the list. The inner function returns
  \<open>Some False\<close> where the source returns \<open>False\<close>, and \<open>Some True\<close> where the row is done.
\<close>

fun can_place_cells :: "GameBoard \<Rightarrow> int list \<Rightarrow> int \<Rightarrow> int \<Rightarrow> bool option" where
  "can_place_cells b [] board_y board_x = Some True"
| "can_place_cells b (cell # cells) board_y board_x =
     (if truthy cell then
        (if board_x < 0 \<or> board_x \<ge> width b \<or> board_y < 0 \<or> board_y \<ge> height b
         then Some False
         else (case grid_cell (grid b) board_y board_x of
                 None \<Rightarrow> None
               | Some v \<Rightarrow> if truthy v then Some False
                           else can_place_cells b cells board_y (board_x + 1)))
      else can_place_cells b cells board_y (board_x + 1))"

fun can_place_rows :: "GameBoard \<Rightarrow> int list list \<Rightarrow> int \<Rightarrow> int \<Rightarrow> bool option" where
  "can_place_rows b [] x board_y = Some True"
| "can_place_rows b (row # rows) x board_y =
     (case can_place_cells b row board_y x of
        None \<Rightarrow> None
      | Some False \<Rightarrow> Some False
      | Some True \<Rightarrow> can_place_rows b rows x (board_y + 1))"

definition can_place :: "GameBoard \<Rightarrow> Tetromino \<Rightarrow> int \<Rightarrow> int \<Rightarrow> bool option" where
  "can_place b piece x y = can_place_rows b (shape piece) x y"

text \<open>\<open>place_piece\<close> mutates \<open>self.grid\<close> only; the loops thread the grid.\<close>

fun place_cells :: "int \<Rightarrow> int \<Rightarrow> int list list \<Rightarrow> int list \<Rightarrow> int \<Rightarrow> int \<Rightarrow> int list list option" where
  "place_cells w h g [] board_y board_x = Some g"
| "place_cells w h g (cell # cells) board_y board_x =
     (if truthy cell then
        (if 0 \<le> board_y \<and> board_y < h \<and> 0 \<le> board_x \<and> board_x < w
         then (case grid_fill g board_y board_x of
                 None \<Rightarrow> None
               | Some g' \<Rightarrow> place_cells w h g' cells board_y (board_x + 1))
         else place_cells w h g cells board_y (board_x + 1))
      else place_cells w h g cells board_y (board_x + 1))"

fun place_rows :: "int \<Rightarrow> int \<Rightarrow> int list list \<Rightarrow> int list list \<Rightarrow> int \<Rightarrow> int \<Rightarrow> int list list option" where
  "place_rows w h g [] x board_y = Some g"
| "place_rows w h g (row # rows) x board_y =
     (case place_cells w h g row board_y x of
        None \<Rightarrow> None
      | Some g' \<Rightarrow> place_rows w h g' rows x (board_y + 1))"

definition place_piece :: "GameBoard \<Rightarrow> Tetromino \<Rightarrow> int \<Rightarrow> int \<Rightarrow> GameBoard option" where
  "place_piece b piece x y =
     (case place_rows (width b) (height b) (grid b) (shape piece) x y of
        None \<Rightarrow> None
      | Some g' \<Rightarrow> Some (b\<lparr>grid := g'\<rparr>))"

text \<open>
  \<open>clear_lines\<close>: first the indices of the full rows, in ascending order; then, for each of
  them, \<open>del self.grid[y]\<close> followed by \<open>self.grid.insert(0, [0, ..., 0])\<close>.
\<close>

fun full_rows :: "int list list \<Rightarrow> int list \<Rightarrow> int list option" where
  "full_rows g [] = Some []"
| "full_rows g (y # ys) =
     (case py_getitem g y of
        None \<Rightarrow> None
      | Some row \<Rightarrow>
          (case full_rows g ys of
             None \<Rightarrow> None
           | Some rest \<Rightarrow> Some (if py_all row then y # rest else rest)))"

fun delete_rows :: "int \<Rightarrow> int list list \<Rightarrow> int list \<Rightarrow> int list list option" where
  "delete_rows w g [] = Some g"
| "delete_rows w g (y # ys) =
     (case py_delitem g y of
        None \<Rightarrow> None
      | Some g' \<Rightarrow> delete_rows w (map (\<lambda>_. 0) (py_range w) # g') ys)"

definition score_table :: "int \<Rightarrow> int option" where
  "score_table = map_of [(1, 100), (2, 300), (3, 500), (4, 800)]"

definition line_score :: "int \<Rightarrow> int" where
  \<comment> \<open>\<open>score_table.get(num_cleared, num_cleared * 100)\<close>\<close>
  "line_score num_cleared =
     (case score_table num_cleared of None \<Rightarrow> num_cleared * 100 | Some s \<Rightarrow> s)"

definition clear_lines :: "GameBoard \<Rightarrow> (GameBoard \<times> int) option" where
  "clear_lines b =
     (case full_rows (grid b) (py_range (height b)) of
        None \<Rightarrow> None
      | Some lines_to_clear \<Rightarrow>
          (case delete_rows (width b) (grid b) lines_to_clear of
             None \<Rightarrow> None
           | Some g' \<Rightarrow>
               (let num_cleared = int (length lines_to_clear);
                    b' = b\<lparr>grid := g'\<rparr>
                in if num_cleared > 0
                   then Some (b'\<lparr>lines_cleared := lines_cleared b + num_cleared,
                                  score := score b + line_score num_cleared\<rparr>, num_cleared)
                   else Some (b', num_cleared))))"

definition is_game_over :: "GameBoard \<Rightarrow> bool option" where
  \<comment> \<open>\<open>any(self.grid[0])\<close>\<close>
  "is_game_over b = (case py_getitem (grid b) 0 of None \<Rightarrow> None | Some row \<Rightarrow> Some (py_any row))"

text \<open>
  \<open>add_garbage_lines\<close> draws from Python's global random generator. The generator is
  the stream of its raw draws: \<open>randint a b\<close> raises ValueError on an empty range and
  otherwise maps the next draw into \<open>a..b\<close>, \<open>choice xs\<close> raises IndexError on the empty
  list and otherwise picks by the next draw. Every value of the range (every element of
  the list) is the result for some draw.
\<close>

type_synonym rng = "nat \<Rightarrow> nat"

definition rng_tail :: "rng \<Rightarrow> rng" where
  "rng_tail r = (\<lambda>i. r (Suc i))"

definition randint :: "int \<Rightarrow> int \<Rightarrow> rng \<Rightarrow> (int \<times> rng) option" where
  "randint a b r = (if a > b then None else Some (a + int (r 0) mod (b - a + 1), rng_tail r))"

definition choice :: "'a list \<Rightarrow> rng \<Rightarrow> ('a \<times> rng) option" where
  "choice xs r = (if xs = [] then None else Some (xs ! (r 0 mod length xs), rng_tail r))"

fun garbage_loop :: "int \<Rightarrow> nat \<Rightarrow> int list list \<Rightarrow> rng \<Rightarrow> (int list list \<times> rng) option" where
  "garbage_loop w 0 g r = Some (g, r)"
| "garbage_loop w (Suc k) g r =
     (case py_pop0 g of
        None \<Rightarrow> None
      | Some g1 \<Rightarrow>
          (case randint 0 (w - 1) r of
             None \<Rightarrow> None
           | Some (hole_position, r') \<Rightarrow>
               (case py_setitem (replicate (nat w) 1) hole_position 0 of
                  None \<Rightarrow> None
                | Some garbage_line \<Rightarrow> garbage_loop w k (g1 @ [garbage_line]) r')))"

definition add_garbage_lines :: "GameBoard \<Rightarrow> int \<Rightarrow> rng \<Rightarrow> (GameBoard \<times> rng) option" where
  \<comment> \<open>\<open>for _ in range(num_lines)\<close> runs \<open>nat num_lines\<close> times.\<close>
  "add_garbage_lines b num_lines r =
     (case garbage_loop (width b) (nat num_lines) (grid b) r of
        None \<Rightarrow> None
      | Some (g', r') \<Rightarrow> Some (b\<lparr>grid := g'\<rparr>, r'))"

fun column_height :: "GameBoard \<Rightarrow> int \<Rightarrow> int list \<Rightarrow> int option" where
  \<comment> \<open>The inner loop of \<open>get_height_map\<close> over the remaining rows, with its \<open>break\<close>.\<close>
  "column_height b x [] = Some 0"
| "column_height b x (y # ys) =
     (case grid_cell (grid b) y x of
        None \<Rightarrow> None
      | Some v \<Rightarrow> if truthy v then Some (height b - y) else column_height b x ys)"

fun height_map_from :: "GameBoard \<Rightarrow> int list \<Rightarrow> int list option" where
  "height_map_from b [] = Some []"
| "height_map_from b (x # xs) =
     (case column_height b x (py_range (height b)) of
        None \<Rightarrow> None
      | Some h \<Rightarrow>
          (case height_map_from b xs of
             None \<Rightarrow> None
           | Some hs \<Rightarrow> Some (h # hs)))"

definition get_height_map :: "GameBoard \<Rightarrow> int list option" where
  "get_height_map b = height_map_from b (py_range (width b))"

definition get_max_height :: "GameBoard \<Rightarrow> int option" where
  \<comment> \<open>\<open>max(heights) if heights else 0\<close>\<close>
  "get_max_height b =
     (case get_height_map b of
        None \<Rightarrow> None
      | Some heights \<Rightarrow> Some (case heights of [] \<Rightarrow> 0 | h # hs \<Rightarrow> fold max hs h))"

section \<open>bank.py\<close>

definition TETROMINO_TYPES :: "string list" where
  "TETROMINO_TYPES = [''I'', ''O'', ''T'', ''S'', ''Z'', ''L'', ''J'']"

record FigureBank =
  bank :: "string \<Rightarrow> int option"
  initial_count :: int

definition new_FigureBank :: "int \<Rightarrow> FigureBank" where
  "new_FigureBank n =
     \<lparr>bank = map_of (map (\<lambda>piece_type. (piece_type, n)) TETROMINO_TYPES), initial_count = n\<rparr>"

definition get_piece :: "FigureBank \<Rightarrow> string \<Rightarrow> bool \<times> FigureBank" where
  "get_piece fb piece_type =
     (case bank fb piece_type of
        None \<Rightarrow> (False, fb)
      | Some c \<Rightarrow>
          if c > 0 then (True, fb\<lparr>bank := (bank fb)(piece_type \<mapsto> c - 1)\<rparr>)
          else (False, fb))"

definition is_available :: "FigureBank \<Rightarrow> string \<Rightarrow> bool" where
  "is_available fb piece_type = (case bank fb piece_type of None \<Rightarrow> False | Some c \<Rightarrow> c > 0)"

fun available_from :: "FigureBank \<Rightarrow> string list \<Rightarrow> string list option" where
  \<comment> \<open>The comprehension of \<open>get_available_pieces\<close>; \<open>self.bank[t]\<close> raises KeyError on a missing key.\<close>
  "available_from fb [] = Some []"
| "available_from fb (t # ts) =
     (case bank fb t of
        None \<Rightarrow> None
      | Some c \<Rightarrow>
          (case available_from fb ts of
             None \<Rightarrow> None
           | Some rest \<Rightarrow> Some (if c > 0 then t # rest else rest)))"

definition get_available_pieces :: "FigureBank \<Rightarrow> string list option" where
  "get_available_pieces fb = available_from fb TETROMINO_TYPES"

definition get_random_available :: "FigureBank \<Rightarrow> rng \<Rightarrow> (string option \<times> rng) option" where
  "get_random_available fb r =
     (case get_available_pieces fb of
        None \<Rightarrow> None
      | Some available \<Rightarrow>
          if available \<noteq> [] then
            (case choice available r of None \<Rightarrow> None | Some (t, r') \<Rightarrow> Some (Some t, r'))
          else Some (None, r))"

definition get_state :: "FigureBank \<Rightarrow> (string \<Rightarrow> int option)" where
  \<comment> \<open>\<open>self.bank.copy()\<close>: a snapshot, not affected by later draws.\<close>
  "get_state fb = bank fb"

section \<open>ai\_agent.py\<close>

text \<open>
  \<open>time.time()\<close> reads the wall clock: the clock is the stream of its successive readings
  (in ticks; the program only subtracts them).
\<close>

type_synonym clock = "nat \<Rightarrow> int"

definition time_time :: "clock \<Rightarrow> int \<times> clock" where
  "time_time c = (c 0, (\<lambda>i. c (Suc i)))"

record AIAgent =
  name :: string
  strategy :: string
  decision_times :: "int list"

definition new_AIAgent :: "string \<Rightarrow> string \<Rightarrow> AIAgent" where
  "new_AIAgent n s = \<lparr>name = n, strategy = s, decision_times = []\<rparr>"

fun count_lines_from :: "int list list \<Rightarrow> int list \<Rightarrow> int \<Rightarrow> int option" where
  "count_lines_from g [] count = Some count"
| "count_lines_from g (y # ys) count =
     (case py_getitem g y of
        None \<Rightarrow> None
      | Some row \<Rightarrow> count_lines_from g ys (if py_all row then count + 1 else count))"

definition count_potential_lines :: "GameBoard \<Rightarrow> int option" where
  "count_potential_lines b = count_lines_from (grid b) (py_range (height b)) 0"

fun holes_in_column :: "int list list \<Rightarrow> int \<Rightarrow> int list \<Rightarrow> bool \<Rightarrow> int \<Rightarrow> int option" where
  \<comment> \<open>The inner loop of the hole count: \<open>found_block\<close> and the running \<open>holes\<close>.\<close>
  "holes_in_column g col_x [] found_block holes = Some holes"
| "holes_in_column g col_x (row_y # ys) found_block holes =
     (case grid_cell g row_y col_x of
        None \<Rightarrow> None
      | Some v \<Rightarrow>
          if truthy v then holes_in_column g col_x ys True holes
          else if found_block then holes_in_column g col_x ys found_block (holes + 1)
          else holes_in_column g col_x ys found_block holes)"

fun count_holes :: "int list list \<Rightarrow> int \<Rightarrow> int list \<Rightarrow> int \<Rightarrow> int option" where
  "count_holes g h [] holes = Some holes"
| "count_holes g h (col_x # xs) holes =
     (case holes_in_column g col_x (py_range h) False holes of
        None \<Rightarrow> None
      | Some holes' \<Rightarrow> count_holes g h xs holes')"

definition bumpiness :: "int list \<Rightarrow> int" where
  "bumpiness heights =
     sum_list (map (\<lambda>i. \<bar>heights ! i - heights ! (i + 1)\<bar>) [0..<length heights - 1])"

definition evaluate_position :: "AIAgent \<Rightarrow> GameBoard \<Rightarrow> Tetromino \<Rightarrow> int \<Rightarrow> int \<Rightarrow> int option" where
  "evaluate_position ag board piece x y =
     (let test_board = (new_GameBoard (width board) (height board))\<lparr>grid := grid board\<rparr>
      in case place_piece test_board piece x y of
           None \<Rightarrow> None
         | Some test_board \<Rightarrow>
      (case get_max_height test_board of
           None \<Rightarrow> None
         | Some max_height \<Rightarrow>
      (case get_height_map test_board of
           None \<Rightarrow> None
         | Some heights \<Rightarrow>
      (case count_holes (grid test_board) (height board) (py_range (width board)) 0 of
           None \<Rightarrow> None
         | Some holes \<Rightarrow>
             if strategy ag = ''greedy'' then
               Some (- max_height * 2 - holes * 5 - bumpiness heights)
             else if strategy ag = ''defensive'' then
               Some (- max_height * 3 - holes * 10 - bumpiness heights * 2)
             else if strategy ag = ''aggressive'' then
               (case count_potential_lines test_board of
                  None \<Rightarrow> None
                | Some lines \<Rightarrow> Some (lines * 100 - max_height - holes * 3))
             else Some (- max_height - holes)))))"

text \<open>
  The placement search of \<open>decide_placement\<close>. \<open>drop_loop\<close> is the \<open>while\<close> loop of the
  hard drop, \<open>hard_drop\<close> the drop with the step back and the test that follows it:
  \<open>Some (Some y)\<close> where the position is evaluated, \<open>Some None\<close> where the combination
  is skipped.
\<close>

function drop_loop :: "GameBoard \<Rightarrow> Tetromino \<Rightarrow> int \<Rightarrow> int \<Rightarrow> int option" where
  "drop_loop b piece x y =
     (if y < height b then
        (case can_place b piece x y of
           None \<Rightarrow> None
         | Some True \<Rightarrow> drop_loop b piece x (y + 1)
         | Some False \<Rightarrow> Some y)
      else Some y)"
  by pat_completeness auto
termination
  by (relation "measure (\<lambda>(b, piece, x, y). nat (height b - y))") auto

declare drop_loop.simps [simp del]

definition hard_drop :: "GameBoard \<Rightarrow> Tetromino \<Rightarrow> int \<Rightarrow> int option option" where
  "hard_drop b piece x =
     (case drop_loop b piece x 0 of
        None \<Rightarrow> None
      | Some y0 \<Rightarrow>
          (let y = y0 - 1
           in if y \<ge> 0 then
                (case can_place b piece x y of
                   None \<Rightarrow> None
                 | Some ok \<Rightarrow> Some (if ok then Some y else None))
              else Some None))"

type_synonym placement = "int \<times> int \<times> int"

definition better :: "int \<Rightarrow> int option \<Rightarrow> bool" where
  \<comment> \<open>\<open>score > best_score\<close>, with \<open>None\<close> for the initial \<open>float('-inf')\<close>.\<close>
  "better s best_score = (case best_score of None \<Rightarrow> True | Some b \<Rightarrow> s > b)"

fun search_x ::
  "AIAgent \<Rightarrow> GameBoard \<Rightarrow> Tetromino \<Rightarrow> int \<Rightarrow> int list \<Rightarrow>
   placement option \<times> int option \<Rightarrow> (placement option \<times> int option) option" where
  "search_x ag b piece_copy rot [] best = Some best"
| "search_x ag b piece_copy rot (x # xs) best =
     (case hard_drop b piece_copy x of
        None \<Rightarrow> None
      | Some None \<Rightarrow> search_x ag b piece_copy rot xs best
      | Some (Some y) \<Rightarrow>
          (case evaluate_position ag b piece_copy x y of
             None \<Rightarrow> None
           | Some s \<Rightarrow>
               if better s (snd best)
               then search_x ag b piece_copy rot xs (Some (x, y, rot), Some s)
               else search_x ag b piece_copy rot xs best))"

fun rotate_n :: "nat \<Rightarrow> Tetromino \<Rightarrow> Tetromino" where
  "rotate_n 0 p = p"
| "rotate_n (Suc n) p = rotate_n n (rotate p)"

fun search_rotations ::
  "AIAgent \<Rightarrow> GameBoard \<Rightarrow> string \<Rightarrow> int list \<Rightarrow>
   placement option \<times> int option \<Rightarrow> (placement option \<times> int option) option" where
  "search_rotations ag b t [] best = Some best"
| "search_rotations ag b t (rot # rots) best =
     (case new_Tetromino t of
        None \<Rightarrow> None
      | Some fresh \<Rightarrow>
          (let piece_copy = rotate_n (nat rot) fresh
           in case search_x ag b piece_copy rot
                     (py_range (width b - get_width piece_copy + 1)) best of
                None \<Rightarrow> None
              | Some best' \<Rightarrow> search_rotations ag b t rots best'))"

definition decide_placement ::
  "AIAgent \<Rightarrow> GameBoard \<Rightarrow> Tetromino \<Rightarrow> clock \<Rightarrow> (placement \<times> AIAgent \<times> clock) option" where
  "decide_placement ag board piece c =
     (let (start_time, c1) = time_time c
      in case search_rotations ag board (ptype piece) (py_range 4) (None, None) of
           None \<Rightarrow> None
         | Some (best_position, best_score) \<Rightarrow>
             (let (end_time, c2) = time_time c1;
                  ag' = ag\<lparr>decision_times := decision_times ag @ [end_time - start_time]\<rparr>
              in Some (case best_position of
                         Some pos \<Rightarrow> pos
                       | None \<Rightarrow> (width board div 2, 0, 0),
                       ag', c2)))"

definition members :: "string list \<Rightarrow> string list \<Rightarrow> string list" where
  \<comment> \<open>\<open>[p for p in preferred if p in available]\<close>\<close>
  "members preferred available = filter (\<lambda>p. p \<in> set available) preferred"

definition choose_attack_piece ::
  "AIAgent \<Rightarrow> FigureBank \<Rightarrow> rng \<Rightarrow> (string option \<times> rng) option" where
  "choose_attack_piece ag fb r =
     (case get_available_pieces fb of
        None \<Rightarrow> None
      | Some available \<Rightarrow>
          if available = [] then Some (None, r)
          else
            (let preferred =
                   (if strategy ag = ''aggressive'' then members [''T'', ''L'', ''J''] available
                    else if strategy ag = ''defensive'' then members [''I'', ''O''] available
                    else [])
             in case choice (if preferred \<noteq> [] then preferred else available) r of
                  None \<Rightarrow> None
                | Some (t, r') \<Rightarrow> Some (Some t, r')))"

section \<open>arena.py\<close>

text \<open>
  The match log is a list of events; a turn record carries the fields of the dictionary
  \<open>log_turn\<close> builds. The arena holds the two agents, the two boards, the pool and the log;
  the two agents and boards are objects the arena owns, so \<open>play_turn\<close> returns the
  updated agent and board and its caller stores them. The world is what the program
  reads from outside: the random generator and the wall clock.
\<close>

datatype event =
  Turn_Event (ev_turn: int) (ev_player: string) (ev_piece_type: "string option")
    (ev_placement: placement) (ev_lines_cleared: int) (ev_decision_time: int)
    (ev_bank_state: "string \<Rightarrow> int option") (ev_attack_piece: "string option")
    (ev_timestamp: int)
| Game_Over_Event (ev_winner: string) (ev_scores: "int \<times> int") (ev_lines: "int \<times> int")
    (ev_end_timestamp: int)

record MatchLog =
  events :: "event list"
  start_time :: int

definition new_MatchLog :: "clock \<Rightarrow> MatchLog \<times> clock" where
  "new_MatchLog c = (case time_time c of (t, c') \<Rightarrow> (\<lparr>events = [], start_time = t\<rparr>, c'))"

definition log_turn ::
  "MatchLog \<Rightarrow> int \<Rightarrow> string \<Rightarrow> string option \<Rightarrow> placement \<Rightarrow> int \<Rightarrow> int \<Rightarrow>
   (string \<Rightarrow> int option) \<Rightarrow> string option \<Rightarrow> clock \<Rightarrow> MatchLog \<times> clock" where
  "log_turn lg turn_no player piece_type placed_at lines decision_time bank_state
     attack_piece c =
     (case time_time c of
        (t, c') \<Rightarrow>
          (lg\<lparr>events := events lg @
               [Turn_Event turn_no player piece_type placed_at lines decision_time
                  bank_state attack_piece (t - start_time lg)]\<rparr>, c'))"

definition log_game_over ::
  "MatchLog \<Rightarrow> string \<Rightarrow> int \<Rightarrow> int \<Rightarrow> int \<Rightarrow> int \<Rightarrow> clock \<Rightarrow> MatchLog \<times> clock" where
  "log_game_over lg winner ai1_score ai2_score ai1_lines ai2_lines c =
     (case time_time c of
        (t, c') \<Rightarrow>
          (lg\<lparr>events := events lg @
               [Game_Over_Event winner (ai1_score, ai2_score) (ai1_lines, ai2_lines)
                  (t - start_time lg)]\<rparr>, c'))"

record world =
  rnd :: rng
  clk :: clock

record Arena =
  ai1 :: AIAgent
  ai2 :: AIAgent
  board1 :: GameBoard
  board2 :: GameBoard
  arena_bank :: FigureBank
  match_log :: MatchLog
  turn :: int
  current_piece_ai1 :: "string option"
  current_piece_ai2 :: "string option"
  garbage_queue_ai1 :: int
  garbage_queue_ai2 :: int

definition new_Arena :: "AIAgent \<Rightarrow> AIAgent \<Rightarrow> FigureBank \<Rightarrow> world \<Rightarrow> Arena \<times> world" where
  "new_Arena a1 a2 fb w =
     (case new_MatchLog (clk w) of
        (lg, c') \<Rightarrow>
          (\<lparr>ai1 = a1, ai2 = a2, board1 = new_GameBoard 10 20, board2 = new_GameBoard 10 20,
            arena_bank = fb, match_log = lg, turn = 0,
            current_piece_ai1 = None, current_piece_ai2 = None,
            garbage_queue_ai1 = 0, garbage_queue_ai2 = 0\<rparr>, w\<lparr>clk := c'\<rparr>))"

definition str_truthy :: "string option \<Rightarrow> bool" where
  \<comment> \<open>Truthiness of an \<open>Optional[str]\<close>: neither \<open>None\<close> nor the empty string.\<close>
  "str_truthy s = (case s of None \<Rightarrow> False | Some t \<Rightarrow> t \<noteq> [])"

definition get_next_piece :: "Arena \<Rightarrow> world \<Rightarrow> (string \<times> Arena \<times> world) option" where
  "get_next_piece a w =
     (case get_random_available (arena_bank a) (rnd w) of
        None \<Rightarrow> None
      | Some (piece_type, r') \<Rightarrow>
          (case piece_type of
             Some t \<Rightarrow>
               if t \<noteq> [] then
                 Some (t, a\<lparr>arena_bank := snd (get_piece (arena_bank a) t)\<rparr>, w\<lparr>rnd := r'\<rparr>)
               else
                 (case choice TETROMINO_TYPES r' of
                    None \<Rightarrow> None
                  | Some (u, r'') \<Rightarrow> Some (u, a, w\<lparr>rnd := r''\<rparr>))
           | None \<Rightarrow>
               (case choice TETROMINO_TYPES r' of
                  None \<Rightarrow> None
                | Some (u, r'') \<Rightarrow> Some (u, a, w\<lparr>rnd := r''\<rparr>))))"

definition play_turn ::
  "AIAgent \<Rightarrow> GameBoard \<Rightarrow> string option \<Rightarrow> FigureBank \<Rightarrow> world \<Rightarrow>
   (AIAgent \<times> GameBoard \<times> int \<times> int \<times> string option \<times> world) option" where
  "play_turn ai board piece_type fb w =
     (case (case piece_type of None \<Rightarrow> None | Some t \<Rightarrow> new_Tetromino t) of
        None \<Rightarrow> None
      | Some piece0 \<Rightarrow>
     (case decide_placement ai board piece0 (clk w) of
        None \<Rightarrow> None
      | Some ((x, y, rotations), ai', c') \<Rightarrow>
          (let piece = rotate_n (nat rotations) piece0;
               w1 = w\<lparr>clk := c'\<rparr>
           in case can_place board piece x y of
                None \<Rightarrow> None
              | Some False \<Rightarrow> Some (ai', board\<lparr>game_over := True\<rparr>, 0, 0, None, w1)
              | Some True \<Rightarrow>
          (case place_piece board piece x y of
             None \<Rightarrow> None
           | Some placed \<Rightarrow>
          (case clear_lines placed of
             None \<Rightarrow> None
           | Some (board', lines) \<Rightarrow>
          (case (if lines > 0 then choose_attack_piece ai' fb (rnd w1) else Some (None, rnd w1)) of
             None \<Rightarrow> None
           | Some (attack_piece, r') \<Rightarrow>
               Some (ai', board', lines,
                     (if decision_times ai' \<noteq> [] then last (decision_times ai') else 0),
                     attack_piece, w1\<lparr>rnd := r'\<rparr>)))))))"


text \<open>
  \<open>run_match\<close>. One pass of its loop is \<open>match_pass\<close>; the blocks of each half are named
  after the comments of the source.
\<close>

definition process_garbage_ai1 :: "Arena \<Rightarrow> world \<Rightarrow> (Arena \<times> world) option" where
  "process_garbage_ai1 a w =
     (if garbage_queue_ai1 a > 0 then
        (case add_garbage_lines (board1 a) (garbage_queue_ai1 a) (rnd w) of
           None \<Rightarrow> None
         | Some (b', r') \<Rightarrow> Some (a\<lparr>board1 := b', garbage_queue_ai1 := 0\<rparr>, w\<lparr>rnd := r'\<rparr>))
      else Some (a, w))"

definition ai1_turn :: "Arena \<Rightarrow> world \<Rightarrow> (Arena \<times> world \<times> string option) option" where
  \<comment> \<open>\<open>play_turn\<close>, \<open>log_turn\<close> with the placement \<open>(0, 0, 0)\<close>, and the garbage sent to AI2;
      the attack piece is handed on.\<close>
  "ai1_turn a w =
     (case play_turn (ai1 a) (board1 a) (current_piece_ai1 a) (arena_bank a) w of
        None \<Rightarrow> None
      | Some (ai', b', lines1, time1, attack1, w1) \<Rightarrow>
          (case log_turn (match_log a) (turn a) (name ai') (current_piece_ai1 a) (0, 0, 0)
                  lines1 time1 (get_state (arena_bank a)) attack1 (clk w1) of
             (lg, c') \<Rightarrow>
               Some (a\<lparr>ai1 := ai', board1 := b', match_log := lg,
                       garbage_queue_ai2 :=
                         (if lines1 > 0 then garbage_queue_ai2 a + lines1
                          else garbage_queue_ai2 a)\<rparr>,
                     w1\<lparr>clk := c'\<rparr>, attack1)))"

definition update_piece_ai1 :: "Arena \<Rightarrow> world \<Rightarrow> string option \<Rightarrow> (Arena \<times> world) option" where
  "update_piece_ai1 a w attack1 =
     (if str_truthy attack1 \<and> is_available (arena_bank a) (the attack1) then
        Some (a\<lparr>current_piece_ai1 := attack1,
                arena_bank := snd (get_piece (arena_bank a) (the attack1))\<rparr>, w)
      else
        (case get_next_piece a w of
           None \<Rightarrow> None
         | Some (t, a', w') \<Rightarrow> Some (a'\<lparr>current_piece_ai1 := Some t\<rparr>, w')))"

definition ai1_half :: "Arena \<Rightarrow> world \<Rightarrow> (Arena \<times> world \<times> bool) option" where
  \<comment> \<open>The first half of a pass; the boolean is \<open>self.board1.is_game_over()\<close>.\<close>
  "ai1_half a w =
     (case process_garbage_ai1 a w of
        None \<Rightarrow> None
      | Some (a1, w1) \<Rightarrow>
     (case ai1_turn a1 w1 of
        None \<Rightarrow> None
      | Some (a2, w2, attack1) \<Rightarrow>
     (case update_piece_ai1 a2 w2 attack1 of
        None \<Rightarrow> None
      | Some (a3, w3) \<Rightarrow>
     (case is_game_over (board1 a3) of
        None \<Rightarrow> None
      | Some lost \<Rightarrow> Some (a3, w3, lost)))))"

definition process_garbage_ai2 :: "Arena \<Rightarrow> world \<Rightarrow> (Arena \<times> world) option" where
  "process_garbage_ai2 a w =
     (if garbage_queue_ai2 a > 0 then
        (case add_garbage_lines (board2 a) (garbage_queue_ai2 a) (rnd w) of
           None \<Rightarrow> None
         | Some (b', r') \<Rightarrow> Some (a\<lparr>board2 := b', garbage_queue_ai2 := 0\<rparr>, w\<lparr>rnd := r'\<rparr>))
      else Some (a, w))"

definition ai2_turn :: "Arena \<Rightarrow> world \<Rightarrow> (Arena \<times> world \<times> string option) option" where
  \<comment> \<open>\<open>play_turn\<close>, \<open>log_turn\<close> with the placement \<open>(0, 0, 0)\<close>, and the garbage sent to AI1;
      the attack piece is handed on.\<close>
  "ai2_turn a w =
     (case play_turn (ai2 a) (board2 a) (current_piece_ai2 a) (arena_bank a) w of
        None \<Rightarrow> None
      | Some (ai', b', lines2, time2, attack2, w1) \<Rightarrow>
          (case log_turn (match_log a) (turn a) (name ai') (current_piece_ai2 a) (0, 0, 0)
                  lines2 time2 (get_state (arena_bank a)) attack2 (clk w1) of
             (lg, c') \<Rightarrow>
               Some (a\<lparr>ai2 := ai', board2 := b', match_log := lg,
                       garbage_queue_ai1 :=
                         (if lines2 > 0 then garbage_queue_ai1 a + lines2
                          else garbage_queue_ai1 a)\<rparr>,
                     w1\<lparr>clk := c'\<rparr>, attack2)))"

definition update_piece_ai2 :: "Arena \<Rightarrow> world \<Rightarrow> string option \<Rightarrow> (Arena \<times> world) option" where
  "update_piece_ai2 a w attack2 =
     (if str_truthy attack2 \<and> is_available (arena_bank a) (the attack2) then
        Some (a\<lparr>current_piece_ai2 := attack2,
                arena_bank := snd (get_piece (arena_bank a) (the attack2))\<rparr>, w)
      else
        (case get_next_piece a w of
           None \<Rightarrow> None
         | Some (t, a', w') \<Rightarrow> Some (a'\<lparr>current_piece_ai2 := Some t\<rparr>, w')))"

definition ai2_half :: "Arena \<Rightarrow> world \<Rightarrow> (Arena \<times> world \<times> bool) option" where
  \<comment> \<open>The second half of a pass; the boolean is \<open>self.board2.is_game_over()\<close>.\<close>
  "ai2_half a w =
     (case process_garbage_ai2 a w of
        None \<Rightarrow> None
      | Some (a1, w1) \<Rightarrow>
     (case ai2_turn a1 w1 of
        None \<Rightarrow> None
      | Some (a2, w2, attack2) \<Rightarrow>
     (case update_piece_ai2 a2 w2 attack2 of
        None \<Rightarrow> None
      | Some (a3, w3) \<Rightarrow>
     (case is_game_over (board2 a3) of
        None \<Rightarrow> None
      | Some lost \<Rightarrow> Some (a3, w3, lost)))))"

datatype outcome = Finished string Arena world | Running Arena world

definition end_match :: "string \<Rightarrow> Arena \<Rightarrow> world \<Rightarrow> string \<times> Arena \<times> world" where
  \<comment> \<open>\<open>self.log.log_game_over(winner, ...)\<close>, then \<open>return winner\<close>.\<close>
  "end_match winner a w =
     (case log_game_over (match_log a) winner (score (board1 a)) (score (board2 a))
             (lines_cleared (board1 a)) (lines_cleared (board2 a)) (clk w) of
        (lg, c') \<Rightarrow> (winner, a\<lparr>match_log := lg\<rparr>, w\<lparr>clk := c'\<rparr>))"

definition match_pass :: "Arena \<Rightarrow> world \<Rightarrow> outcome option" where
  "match_pass a w =
     (case ai1_half (a\<lparr>turn := turn a + 1\<rparr>) w of
        None \<Rightarrow> None
      | Some (a1, w1, lost1) \<Rightarrow>
          if lost1 then
            (case end_match (name (ai2 a1)) a1 w1 of (win, a', w') \<Rightarrow> Some (Finished win a' w'))
          else
            (case ai2_half a1 w1 of
               None \<Rightarrow> None
             | Some (a2, w2, lost2) \<Rightarrow>
                 if lost2 then
                   (case end_match (name (ai1 a2)) a2 w2 of
                      (win, a', w') \<Rightarrow> Some (Finished win a' w'))
                 else Some (Running a2 w2)))"

lemma get_next_piece_turn: "get_next_piece a w = Some (t, a', w') \<Longrightarrow> turn a' = turn a"
  by (auto simp: get_next_piece_def split: option.splits prod.splits if_splits)

lemma ai1_half_turn: "ai1_half a w = Some (a', w', l) \<Longrightarrow> turn a' = turn a"
  by (auto simp: ai1_half_def process_garbage_ai1_def ai1_turn_def update_piece_ai1_def
      dest!: get_next_piece_turn split: option.splits prod.splits if_splits)

lemma ai2_half_turn: "ai2_half a w = Some (a', w', l) \<Longrightarrow> turn a' = turn a"
  by (auto simp: ai2_half_def process_garbage_ai2_def ai2_turn_def update_piece_ai2_def
      dest!: get_next_piece_turn split: option.splits prod.splits if_splits)

lemma match_pass_turn: "match_pass a w = Some (Running a' w') \<Longrightarrow> turn a' = turn a + 1"
  by (auto simp: match_pass_def dest!: ai1_half_turn ai2_half_turn
      split: option.splits prod.splits if_splits)

function run_loop :: "Arena \<Rightarrow> world \<Rightarrow> int \<Rightarrow> (string \<times> Arena \<times> world) option" where
  "run_loop a w max_turns =
     (if turn a < max_turns then
        (case match_pass a w of
           None \<Rightarrow> None
         | Some (Finished win a' w') \<Rightarrow> Some (win, a', w')
         | Some (Running a' w') \<Rightarrow> run_loop a' w' max_turns)
      else
        Some (end_match (if score (board1 a) > score (board2 a) then name (ai1 a)
                         else name (ai2 a)) a w))"
  by pat_completeness auto
termination
  by (relation "measure (\<lambda>(a, w, max_turns). nat (max_turns - turn a))")
    (auto dest!: match_pass_turn)

declare run_loop.simps [simp del]

definition run_match :: "Arena \<Rightarrow> world \<Rightarrow> int \<Rightarrow> (string \<times> Arena \<times> world) option" where
  "run_match a w max_turns =
     (case get_next_piece a w of
        None \<Rightarrow> None
      | Some (t1, a1, w1) \<Rightarrow>
          (case get_next_piece (a1\<lparr>current_piece_ai1 := Some t1\<rparr>) w1 of
             None \<Rightarrow> None
           | Some (t2, a2, w2) \<Rightarrow> run_loop (a2\<lparr>current_piece_ai2 := Some t2\<rparr>) w2 max_turns))"

section \<open>Invariants and specification-side notions\<close>

text \<open>
  The representation invariant of a grid: \<open>h\<close> rows of \<open>w\<close> cells. A board is well formed
  when its grid is such a matrix with at least one row and one column: every board of
  the program is built by \<open>GameBoard()\<close> as 10 by 20, and \<open>is_game_over\<close> and
  \<open>add_garbage_lines\<close> raise on a board without rows or without columns.
\<close>

definition grid_ok :: "int \<Rightarrow> int \<Rightarrow> int list list \<Rightarrow> bool" where
  "grid_ok w h g \<longleftrightarrow> int (length g) = h \<and> list_all (\<lambda>row. int (length row) = w) g"

definition wf_board :: "GameBoard \<Rightarrow> bool" where
  "wf_board b \<longleftrightarrow> 0 < width b \<and> 0 < height b \<and> grid_ok (width b) (height b) (grid b)"

text \<open>
  The cells a piece covers at offset \<open>(x, y)\<close>: board cell (row \<open>j\<close>, column \<open>i\<close>) is covered
  when the cell of the occupancy matrix at row \<open>j - y\<close>, column \<open>i - x\<close> exists and is
  occupied.
\<close>

definition row_covers :: "int list \<Rightarrow> int \<Rightarrow> nat \<Rightarrow> bool" where
  "row_covers cells x i \<longleftrightarrow>
     0 \<le> int i - x \<and> nat (int i - x) < length cells \<and> truthy (cells ! nat (int i - x))"

definition covers :: "int list list \<Rightarrow> int \<Rightarrow> int \<Rightarrow> nat \<Rightarrow> nat \<Rightarrow> bool" where
  "covers s x y j i \<longleftrightarrow>
     0 \<le> int j - y \<and> nat (int j - y) < length s \<and> row_covers (s ! nat (int j - y)) x i"

text \<open>
  The indices of the full rows of \<open>B\<close>, counted from \<open>k\<close>; the grid \<open>clear_lines\<close> is to leave
  (as many empty rows on top as there were full rows, then the other rows in their
  order); the points of the score table.
\<close>

fun full_idx_from :: "nat \<Rightarrow> int list list \<Rightarrow> int list" where
  "full_idx_from k [] = []"
| "full_idx_from k (r # rs) =
     (if py_all r then int k # full_idx_from (Suc k) rs else full_idx_from (Suc k) rs)"

definition cleared_grid :: "int \<Rightarrow> int list list \<Rightarrow> int list list" where
  "cleared_grid w g =
     replicate (length (filter py_all g)) (replicate (nat w) 0) @ filter (\<lambda>row. \<not> py_all row) g"

definition points :: "int \<Rightarrow> int" where
  "points n = (if n = 1 then 100 else if n = 2 then 300 else if n = 3 then 500
               else if n = 4 then 800 else n * 100)"

text \<open>
  Successive draws of one type from the pool: the results of \<open>n\<close> calls of \<open>get_piece\<close> and
  the pool after them. \<open>counts_nonneg\<close>: no count of the pool is negative.
\<close>

fun draw_n :: "FigureBank \<Rightarrow> string \<Rightarrow> nat \<Rightarrow> bool list \<times> FigureBank" where
  "draw_n fb t 0 = ([], fb)"
| "draw_n fb t (Suc n) =
     (case get_piece fb t of (ok, fb') \<Rightarrow> (case draw_n fb' t n of (oks, fb'') \<Rightarrow> (ok # oks, fb'')))"

definition counts_nonneg :: "FigureBank \<Rightarrow> bool" where
  "counts_nonneg fb \<longleftrightarrow> (\<forall>u k. bank fb u = Some k \<longrightarrow> 0 \<le> k)"

text \<open>
  A garbage row of width \<open>w\<close> with its hole at column \<open>hole\<close>; the hole columns of \<open>k\<close>
  successive garbage rows, as the random generator \<open>r\<close> gives them; a row with exactly
  one empty cell.
\<close>

definition garbage_row :: "int \<Rightarrow> nat \<Rightarrow> int list" where
  "garbage_row w hole = (replicate (nat w) 1)[hole := 0]"

definition hole_columns :: "int \<Rightarrow> rng \<Rightarrow> nat \<Rightarrow> nat list" where
  "hole_columns w r k = map (\<lambda>i. r i mod nat w) [0..<k]"

definition one_hole :: "int \<Rightarrow> int list \<Rightarrow> bool" where
  \<comment> \<open>A row of \<open>w\<close> cells, all filled (1) but exactly one, which is empty (0).\<close>
  "one_hole w row \<longleftrightarrow>
     int (length row) = w \<and> length (filter (\<lambda>c. c = 0) row) = 1 \<and>
     length (filter (\<lambda>c. c = 1) row) = length row - 1"

definition zero_rng :: rng where
  \<comment> \<open>The generator whose every draw is 0.\<close>
  "zero_rng = (\<lambda>_. 0)"

definition top_row_full :: GameBoard where
  \<comment> \<open>The 10 by 20 board with the top row full and every other row empty.\<close>
  "top_row_full =
     \<lparr>width = 10, height = 20, grid = replicate 10 1 # replicate 19 (replicate 10 0),
      score = 0, lines_cleared = 0, game_over = False\<rparr>"

definition top_block :: GameBoard where
  \<comment> \<open>The 10 by 20 board with one filled cell, at the left end of the top row.\<close>
  "top_block =
     \<lparr>width = 10, height = 20, grid = (1 # replicate 9 0) # replicate 19 (replicate 10 0),
      score = 0, lines_cleared = 0, game_over = False\<rparr>"

text \<open>
  The placement search, from the words of the specification. The candidates are the
  valid resting positions with their heuristic scores, in search order: rotation
  ascending, then \<open>x\<close> ascending. \<open>first_max\<close> is the first candidate whose score no other
  candidate exceeds; \<open>spec_decide_placement\<close> is its position, or the fallback
  (horizontal centre, row 0, rotation 0) when there is no candidate. \<open>keep_best\<close> is one
  step of the search loop; \<open>is_first_max\<close> says the same as \<open>first_max\<close> without \<open>find\<close>.
\<close>

definition cand_x ::
  "AIAgent \<Rightarrow> GameBoard \<Rightarrow> Tetromino \<Rightarrow> int \<Rightarrow> int \<Rightarrow> (placement \<times> int) list" where
  "cand_x ag b piece_copy rot x =
     (case hard_drop b piece_copy x of
        Some (Some y) \<Rightarrow>
          (case evaluate_position ag b piece_copy x y of
             Some s \<Rightarrow> [((x, y, rot), s)]
           | None \<Rightarrow> [])
      | _ \<Rightarrow> [])"

definition cands_rot :: "AIAgent \<Rightarrow> GameBoard \<Rightarrow> string \<Rightarrow> int \<Rightarrow> (placement \<times> int) list" where
  "cands_rot ag b t rot =
     (case new_Tetromino t of
        None \<Rightarrow> []
      | Some fresh \<Rightarrow>
          (let piece_copy = rotate_n (nat rot) fresh
           in concat (map (cand_x ag b piece_copy rot)
                          (py_range (width b - get_width piece_copy + 1)))))"

definition candidates :: "AIAgent \<Rightarrow> GameBoard \<Rightarrow> string \<Rightarrow> (placement \<times> int) list" where
  "candidates ag b t = concat (map (cands_rot ag b t) (py_range 4))"

definition first_max :: "(placement \<times> int) list \<Rightarrow> (placement \<times> int) option" where
  "first_max cs = find (\<lambda>c. \<forall>c' \<in> set cs. snd c' \<le> snd c) cs"

definition keep_best ::
  "placement option \<times> int option \<Rightarrow> placement \<times> int \<Rightarrow> placement option \<times> int option" where
  "keep_best best c = (if better (snd c) (snd best) then (Some (fst c), Some (snd c)) else best)"

definition is_first_max :: "(placement \<times> int) list \<Rightarrow> placement \<Rightarrow> int \<Rightarrow> bool" where
  "is_first_max cs p s \<longleftrightarrow>
     (\<exists>pre post. cs = pre @ (p, s) # post \<and> (\<forall>c \<in> set pre. snd c < s) \<and> (\<forall>c \<in> set post. snd c \<le> s))"

definition spec_decide_placement :: "AIAgent \<Rightarrow> GameBoard \<Rightarrow> string \<Rightarrow> placement" where
  "spec_decide_placement ag b t =
     (case first_max (candidates ag b t) of
        None \<Rightarrow> (width b div 2, 0, 0)
      | Some (pos, s) \<Rightarrow> pos)"

definition zero_clock :: clock where
  \<comment> \<open>The clock whose every reading is 0.\<close>
  "zero_clock = (\<lambda>_. 0)"

text \<open>
  States of a match. \<open>first_turn_arena\<close> is the arena of the default match (greedy against
  aggressive, 15 pieces of each type) when \<open>run_match\<close> enters AI-1's first turn, the
  random generator always drawing 0: both sides hold an I piece. \<open>stuck_arena\<close> is a later
  state: AI-1's grid has its top row empty and every other row full except column 0, and
  AI-1 holds an O piece. A pool is complete when it has a count for every canonical type.
\<close>

definition bank_complete :: "FigureBank \<Rightarrow> bool" where
  "bank_complete fb = list_all (\<lambda>t. bank fb t \<noteq> None) TETROMINO_TYPES"

definition first_turn_arena :: Arena where
  "first_turn_arena =
     \<lparr>ai1 = new_AIAgent ''AI-1'' ''greedy'', ai2 = new_AIAgent ''AI-2'' ''aggressive'',
      board1 = new_GameBoard 10 20, board2 = new_GameBoard 10 20,
      arena_bank = snd (get_piece (snd (get_piece (new_FigureBank 15) ''I'')) ''I''),
      match_log = \<lparr>events = [], start_time = 0\<rparr>,
      turn = 1, current_piece_ai1 = Some ''I'', current_piece_ai2 = Some ''I'',
      garbage_queue_ai1 = 0, garbage_queue_ai2 = 0\<rparr>"

definition first_turn_world :: world where
  "first_turn_world = \<lparr>rnd = zero_rng, clk = zero_clock\<rparr>"

definition garbage_board :: GameBoard where
  \<comment> \<open>The top row empty, the 19 rows below it full except for column 0.\<close>
  "garbage_board =
     \<lparr>width = 10, height = 20, grid = replicate 10 0 # replicate 19 (0 # replicate 9 1),
      score = 0, lines_cleared = 0, game_over = False\<rparr>"

definition stuck_arena :: Arena where
  "stuck_arena =
     \<lparr>ai1 = new_AIAgent ''AI-1'' ''greedy'', ai2 = new_AIAgent ''AI-2'' ''aggressive'',
      board1 = garbage_board, board2 = new_GameBoard 10 20,
      arena_bank = new_FigureBank 15, match_log = \<lparr>events = [], start_time = 0\<rparr>,
      turn = 7, current_piece_ai1 = Some ''O'', current_piece_ai2 = Some ''T'',
      garbage_queue_ai1 = 0, garbage_queue_ai2 = 0\<rparr>"

definition start_world :: world where
  "start_world = \<lparr>rnd = zero_rng, clk = zero_clock\<rparr>"

text \<open>Small boards and pieces on which the theorems are instantiated.\<close>

definition board_3x2 :: GameBoard where
  "board_3x2 = new_GameBoard 3 2"

definition piece_T :: Tetromino where
  "piece_T = \<lparr>ptype = ''T'', shape = [[0, 1, 0], [1, 1, 1]], rotation = 0\<rparr>"

definition board_2x3 :: GameBoard where
  "board_2x3 =
     \<lparr>width = 2, height = 3, grid = [[0, 1], [1, 1], [1, 0]], score = 0, lines_cleared = 0,
      game_over = False\<rparr>"

definition bottom_row_full :: GameBoard where
  \<comment> \<open>The 10 by 20 board with the bottom row full and every other row empty.\<close>
  "bottom_row_full =
     \<lparr>width = 10, height = 20, grid = replicate 19 (replicate 10 0) @ [replicate 10 1],
      score = 0, lines_cleared = 0, game_over = False\<rparr>"


definition piece_I :: Tetromino where
  "piece_I = \<lparr>ptype = ''I'', shape = [[1, 1, 1, 1]], rotation = 0\<rparr>"

definition overhang :: GameBoard where
  \<comment> \<open>The empty 10 by 20 board after L (rotated once) was dropped at column 0 and J (rotated
      three times) at column 3: row 19, columns 1 to 4, is a cavity under a roof.\<close>
  "overhang =
     \<lparr>width = 10, height = 20,
      grid = replicate 18 (replicate 10 0)
               @ [[1, 1, 1, 1, 1, 1, 0, 0, 0, 0], [1, 0, 0, 0, 0, 1, 0, 0, 0, 0]],
      score = 0, lines_cleared = 0, game_over = False\<rparr>"

section \<open>place\_piece: total on a matrix, and exact\<close>

lemma norm_index_in: "0 \<le> i \<Longrightarrow> i < int n \<Longrightarrow> norm_index n i = Some (nat i)"
  by (simp add: norm_index_def)

lemma grid_ok_row: "grid_ok w h g \<Longrightarrow> j < length g \<Longrightarrow> int (length (g ! j)) = w"
  by (simp add: grid_ok_def list_all_length)

lemma grid_cell_ok:
  assumes "grid_ok w h g" "0 \<le> y" "y < h" "0 \<le> x" "x < w"
  shows "grid_cell g y x = Some (g ! nat y ! nat x)"
proof -
  have ly: "y < int (length g)" using assms by (simp add: grid_ok_def)
  then have "nat y < length g" using assms(2) by linarith
  then have "int (length (g ! nat y)) = w" using assms(1) by (rule grid_ok_row[rotated])
  then show ?thesis using assms ly
    by (simp add: grid_cell_def py_getitem_def norm_index_in)
qed

lemma grid_fill_ok:
  assumes "grid_ok w h g" "0 \<le> y" "y < h" "0 \<le> x" "x < w"
  shows "grid_fill g y x = Some (g[nat y := (g ! nat y)[nat x := 1]])"
proof -
  have ly: "y < int (length g)" using assms by (simp add: grid_ok_def)
  then have "nat y < length g" using assms(2) by linarith
  then have "int (length (g ! nat y)) = w" using assms(1) by (rule grid_ok_row[rotated])
  then show ?thesis using assms ly
    by (simp add: grid_fill_def py_getitem_def py_setitem_def norm_index_in)
qed

lemma grid_ok_update:
  "grid_ok w h g \<Longrightarrow> int (length r) = w \<Longrightarrow> grid_ok w h (g[j := r])"
  by (auto simp: grid_ok_def list_all_iff dest!: subsetD[OF set_update_subset_insert])

lemma row_covers_Nil: "\<not> row_covers [] x i"
  by (simp add: row_covers_def)

lemma row_covers_Cons:
  "row_covers (c # cs) x i \<longleftrightarrow> (int i = x \<and> truthy c) \<or> row_covers cs (x + 1) i"
proof (cases "int i - x" "0::int" rule: linorder_cases)
  case less then show ?thesis by (simp add: row_covers_def)
next
  case equal then show ?thesis by (simp add: row_covers_def)
next
  case greater
  then have "nat (int i - x) = Suc (nat (int i - (x + 1)))" by linarith
  with greater show ?thesis by (auto simp: row_covers_def)
qed

lemma place_cells_ok:
  assumes "grid_ok w h g"
  shows "\<exists>g'. place_cells w h g cells by bx = Some g' \<and> grid_ok w h g' \<and>
           (\<forall>j i. j < nat h \<longrightarrow> i < nat w \<longrightarrow>
              g' ! j ! i = (if int j = by \<and> row_covers cells bx i then 1 else g ! j ! i))"
  using assms
proof (induction cells arbitrary: g bx)
  case Nil
  then show ?case by (simp add: row_covers_Nil)
next
  case (Cons c cs)
  show ?case
  proof (cases "truthy c \<and> 0 \<le> by \<and> by < h \<and> 0 \<le> bx \<and> bx < w")
    case True
    let ?g1 = "g[nat by := (g ! nat by)[nat bx := 1]]"
    have fill: "grid_fill g by bx = Some ?g1"
      using Cons.prems True by (simp add: grid_fill_ok)
    have lg: "int (length g) = h" using Cons.prems by (simp add: grid_ok_def)
    have "int (length (g ! nat by)) = w"
      using Cons.prems True lg by (intro grid_ok_row[of w h g]) auto
    then have ok1: "grid_ok w h ?g1" using Cons.prems by (intro grid_ok_update) auto
    from Cons.IH[OF ok1, of "bx + 1"] obtain g' where
      g': "place_cells w h ?g1 cs by (bx + 1) = Some g'" "grid_ok w h g'"
      "\<forall>j i. j < nat h \<longrightarrow> i < nat w \<longrightarrow>
         g' ! j ! i = (if int j = by \<and> row_covers cs (bx + 1) i then 1 else ?g1 ! j ! i)"
      by blast
    have "place_cells w h g (c # cs) by bx = Some g'"
      using True fill g'(1) by simp
    moreover have "\<forall>j i. j < nat h \<longrightarrow> i < nat w \<longrightarrow>
        g' ! j ! i = (if int j = by \<and> row_covers (c # cs) bx i then 1 else g ! j ! i)"
    proof (intro allI impI)
      fix j i assume ji: "j < nat h" "i < nat w"
      have jl: "j < length g" using ji lg by linarith
      have il: "i < length (g ! j)" using grid_ok_row[OF Cons.prems jl] ji by linarith
      have upd: "?g1 ! j ! i = (if int j = by \<and> int i = bx then 1 else g ! j ! i)"
      proof (cases "j = nat by")
        case jeq: True
        have e1: "(nat bx = i) = (int i = bx)" using True by linarith
        have e2: "int j = by" using jeq True by simp
        have "?g1 ! j = (g ! j)[nat bx := 1]" using jl jeq by simp
        then have "?g1 ! j ! i = (if nat bx = i then 1 else g ! j ! i)"
          using il by (simp add: nth_list_update)
        then show ?thesis using e1 e2 by simp
      next
        case jne: False
        then have "int j \<noteq> by" by auto
        then show ?thesis using jne by simp
      qed
      show "g' ! j ! i = (if int j = by \<and> row_covers (c # cs) bx i then 1 else g ! j ! i)"
        using g'(3) ji upd True by (auto simp: row_covers_Cons)
    qed
    ultimately show ?thesis using g'(2) by blast
  next
    case False
    from Cons.IH[OF Cons.prems, of "bx + 1"] obtain g' where
      g': "place_cells w h g cs by (bx + 1) = Some g'" "grid_ok w h g'"
      "\<forall>j i. j < nat h \<longrightarrow> i < nat w \<longrightarrow>
         g' ! j ! i = (if int j = by \<and> row_covers cs (bx + 1) i then 1 else g ! j ! i)"
      by blast
    have "place_cells w h g (c # cs) by bx = Some g'"
      using False g'(1) by auto
    moreover have "\<forall>j i. j < nat h \<longrightarrow> i < nat w \<longrightarrow>
        g' ! j ! i = (if int j = by \<and> row_covers (c # cs) bx i then 1 else g ! j ! i)"
    proof (intro allI impI)
      fix j i assume ji: "j < nat h" "i < nat w"
      have "\<not> (int j = by \<and> int i = bx \<and> truthy c)" using False ji by auto
      then show "g' ! j ! i = (if int j = by \<and> row_covers (c # cs) bx i then 1 else g ! j ! i)"
        using g'(3) ji by (auto simp: row_covers_Cons)
    qed
    ultimately show ?thesis using g'(2) by blast
  qed
qed


lemma covers_Nil: "\<not> covers [] x y j i"
  by (simp add: covers_def)

lemma covers_Cons:
  "covers (r # rs) x y j i \<longleftrightarrow> (int j = y \<and> row_covers r x i) \<or> covers rs x (y + 1) j i"
proof (cases "int j - y" "0::int" rule: linorder_cases)
  case less then show ?thesis by (simp add: covers_def)
next
  case equal then show ?thesis by (simp add: covers_def)
next
  case greater
  then have "nat (int j - y) = Suc (nat (int j - (y + 1)))" by linarith
  with greater show ?thesis by (auto simp: covers_def)
qed

lemma place_rows_ok:
  assumes "grid_ok w h g"
  shows "\<exists>g'. place_rows w h g rows x by = Some g' \<and> grid_ok w h g' \<and>
           (\<forall>j i. j < nat h \<longrightarrow> i < nat w \<longrightarrow>
              g' ! j ! i = (if covers rows x by j i then 1 else g ! j ! i))"
  using assms
proof (induction rows arbitrary: g "by")
  case Nil
  then show ?case by (simp add: covers_Nil)
next
  case (Cons r rs)
  from place_cells_ok[OF Cons.prems, of r "by" x] obtain g1 where
    g1: "place_cells w h g r by x = Some g1" "grid_ok w h g1"
    "\<forall>j i. j < nat h \<longrightarrow> i < nat w \<longrightarrow>
       g1 ! j ! i = (if int j = by \<and> row_covers r x i then 1 else g ! j ! i)"
    by blast
  from Cons.IH[OF g1(2), of "by + 1"] obtain g' where
    g': "place_rows w h g1 rs x (by + 1) = Some g'" "grid_ok w h g'"
    "\<forall>j i. j < nat h \<longrightarrow> i < nat w \<longrightarrow>
       g' ! j ! i = (if covers rs x (by + 1) j i then 1 else g1 ! j ! i)"
    by blast
  have "place_rows w h g (r # rs) x by = Some g'"
    using g1(1) g'(1) by simp
  moreover have "\<forall>j i. j < nat h \<longrightarrow> i < nat w \<longrightarrow>
       g' ! j ! i = (if covers (r # rs) x by j i then 1 else g ! j ! i)"
    using g1(3) g'(3) by (auto simp: covers_Cons)
  ultimately show ?case using g'(2) by blast
qed

lemma place_piece_char:
  assumes "grid_ok (width b) (height b) (grid b)"
  shows "\<exists>b'. place_piece b piece x y = Some b' \<and>
           width b' = width b \<and> height b' = height b \<and> score b' = score b \<and>
           lines_cleared b' = lines_cleared b \<and> game_over b' = game_over b \<and>
           grid_ok (width b) (height b) (grid b') \<and>
           (\<forall>j i. j < nat (height b) \<longrightarrow> i < nat (width b) \<longrightarrow>
              grid b' ! j ! i = (if covers (shape piece) x y j i then 1 else grid b ! j ! i))"
proof -
  from place_rows_ok[OF assms, of "shape piece" x y] obtain g' where
    g': "place_rows (width b) (height b) (grid b) (shape piece) x y = Some g'"
    "grid_ok (width b) (height b) g'"
    "\<forall>j i. j < nat (height b) \<longrightarrow> i < nat (width b) \<longrightarrow>
       g' ! j ! i = (if covers (shape piece) x y j i then 1 else grid b ! j ! i)"
    by blast
  show ?thesis
    using g' by (simp add: place_piece_def)
qed

text \<open>
  C10. For every piece (any occupancy matrix) and every integer offset \<open>(x, y)\<close>, valid or
  not, \<open>place_piece\<close> on a board whose grid is a \<open>height\<close> by \<open>width\<close> matrix returns
  normally (no index outside the grid is touched: the model would be \<open>None\<close>), sets to 1
  exactly the in-bounds cells covered by occupied cells of the matrix, skips the covered
  cells out of bounds, and leaves every other cell and the dimensions, score,
  lines-cleared and game-over fields as they were.
\<close>

theorem place_piece_total_exact:
  assumes "grid_ok (width b) (height b) (grid b)"
  shows "\<exists>b'. place_piece b piece x y = Some b' \<and>
           width b' = width b \<and> height b' = height b \<and> score b' = score b \<and>
           lines_cleared b' = lines_cleared b \<and> game_over b' = game_over b \<and>
           grid_ok (width b) (height b) (grid b') \<and>
           (\<forall>j i. j < nat (height b) \<longrightarrow> i < nat (width b) \<longrightarrow>
              grid b' ! j ! i = (if covers (shape piece) x y j i then 1 else grid b ! j ! i))"
  using assms by (rule place_piece_char)

text \<open>
  The T piece at \<open>(1, -1)\<close> on the empty 3 by 2 board: its upper row is above the board and
  the last cell of its lower row is right of it; cells (0, 1) and (0, 2) are filled.
\<close>

theorem place_piece_total_exact_witness:
  "\<exists>b'. place_piece board_3x2 piece_T 1 (- 1) = Some b' \<and>
         grid b' ! 0 ! 0 = 0 \<and> grid b' ! 0 ! 1 = 1 \<and> grid b' ! 0 ! 2 = 1 \<and>
         grid b' ! 1 ! 1 = 0 \<and> score b' = 0 \<and> game_over b' = False"
proof -
  have ok: "grid_ok (width board_3x2) (height board_3x2) (grid board_3x2)"
    by (simp add: board_3x2_def new_GameBoard_def grid_ok_def py_range_def list_all_iff)
  from place_piece_total_exact[OF ok, of piece_T 1 "- 1"] obtain b' where
    b': "place_piece board_3x2 piece_T 1 (- 1) = Some b'"
      "score b' = score board_3x2" "game_over b' = game_over board_3x2"
      "\<forall>j i. j < nat (height board_3x2) \<longrightarrow> i < nat (width board_3x2) \<longrightarrow>
         grid b' ! j ! i =
           (if covers (shape piece_T) 1 (- 1) j i then 1 else grid board_3x2 ! j ! i)"
    by blast
  have dims: "nat (height board_3x2) = 2" "nat (width board_3x2) = 3"
    by (simp_all add: board_3x2_def new_GameBoard_def)
  have c00: "grid b' ! 0 ! 0 = 0" and c01: "grid b' ! 0 ! 1 = 1"
    and c02: "grid b' ! 0 ! 2 = 1" and c11: "grid b' ! 1 ! 1 = 0"
    using b'(4) dims
    by (simp_all add: covers_def row_covers_def truthy_def piece_T_def board_3x2_def
        new_GameBoard_def py_range_def upt_rec)
  show ?thesis
    using b'(1,2,3) c00 c01 c02 c11 by (simp add: board_3x2_def new_GameBoard_def)
qed

section \<open>clear\_lines: compaction, score, idempotence\<close>

lemma length_full_idx_from: "length (full_idx_from k B) = length (filter py_all B)"
  by (induction B arbitrary: k) auto

lemma py_getitem_append_here: "py_getitem (A @ r # rs) (int (length A)) = Some r"
  by (simp add: py_getitem_def norm_index_def)

lemma py_delitem_append_here: "py_delitem (A @ r # rs) (int (length A)) = Some (A @ rs)"
  by (simp add: py_delitem_def norm_index_def)

lemma full_rows_append:
  "full_rows (A @ B) (map int [length A..<length A + length B]) = Some (full_idx_from (length A) B)"
proof (induction B arbitrary: A)
  case Nil
  then show ?case by simp
next
  case (Cons r rs)
  have "[length A..<length A + length (r # rs)] = length A # [Suc (length A)..<Suc (length A) + length rs]"
    using upt_conv_Cons[of "length A" "length A + length (r # rs)"] by simp
  moreover have "full_rows ((A @ [r]) @ rs) (map int [length (A @ [r])..<length (A @ [r]) + length rs])
      = Some (full_idx_from (length (A @ [r])) rs)"
    by (rule Cons.IH)
  ultimately show ?case
    by (simp add: py_getitem_append_here)
qed

lemma full_rows_all:
  "full_rows g (py_range (int (length g))) = Some (full_idx_from 0 g)"
  using full_rows_append[of "[]" g] by (simp add: py_range_def)

lemma delete_rows_append:
  "delete_rows w (A @ B) (full_idx_from (length A) B)
     = Some (replicate (length (filter py_all B)) (map (\<lambda>_. 0) (py_range w)) @ A
              @ filter (\<lambda>r. \<not> py_all r) B)"
proof (induction B arbitrary: A)
  case Nil
  then show ?case by simp
next
  case (Cons r rs)
  show ?case
  proof (cases "py_all r")
    case True
    let ?e = "map (\<lambda>_. 0::int) (py_range w)"
    have "delete_rows w ((?e # A) @ rs) (full_idx_from (length (?e # A)) rs)
        = Some (replicate (length (filter py_all rs)) ?e @ (?e # A) @ filter (\<lambda>r. \<not> py_all r) rs)"
      by (rule Cons.IH)
    then show ?thesis using True
      by (simp add: py_delitem_append_here replicate_app_Cons_same)
  next
    case False
    have "delete_rows w ((A @ [r]) @ rs) (full_idx_from (length (A @ [r])) rs)
        = Some (replicate (length (filter py_all rs)) (map (\<lambda>_. 0) (py_range w)) @ (A @ [r])
              @ filter (\<lambda>r. \<not> py_all r) rs)"
      by (rule Cons.IH)
    then show ?thesis using False by simp
  qed
qed

lemma delete_rows_all:
  "delete_rows w g (full_idx_from 0 g)
     = Some (replicate (length (filter py_all g)) (map (\<lambda>_. 0) (py_range w))
              @ filter (\<lambda>r. \<not> py_all r) g)"
  using delete_rows_append[of w "[]" g] by simp

lemma empty_row_eq: "map (\<lambda>_. 0::int) (py_range w) = replicate (nat w) 0"
  by (simp add: py_range_def map_replicate_const)

lemma clear_lines_eq:
  assumes "int (length (grid b)) = height b"
  shows "clear_lines b =
     (let n = int (length (filter py_all (grid b)))
      in Some (if n > 0
               then b\<lparr>grid := cleared_grid (width b) (grid b),
                       lines_cleared := lines_cleared b + n,
                       score := score b + line_score n\<rparr>
               else b\<lparr>grid := cleared_grid (width b) (grid b)\<rparr>, n))"
proof -
  have "full_rows (grid b) (py_range (height b)) = Some (full_idx_from 0 (grid b))"
    using full_rows_all[of "grid b"] assms by simp
  then show ?thesis
    by (simp add: clear_lines_def delete_rows_all length_full_idx_from empty_row_eq
        cleared_grid_def Let_def)
qed

lemma cleared_grid_none: "filter py_all g = [] \<Longrightarrow> cleared_grid w g = g"
  by (simp add: cleared_grid_def filter_empty_conv)

lemma line_score_points: "line_score n = points n"
  by (simp add: line_score_def score_table_def points_def)

text \<open>
  C5. On a board whose grid is a \<open>height\<close> by \<open>width\<close> matrix, \<open>clear_lines\<close> returns the
  number \<open>n\<close> of full rows; the new grid is \<open>n\<close> all-empty rows followed by the rows that
  were not full, in their order; the lines-cleared total grows by \<open>n\<close> and the score by
  100, 300, 500, 800 for \<open>n\<close> = 1, 2, 3, 4 and by \<open>n * 100\<close> otherwise; when no row is full
  the result is 0 and the board is unchanged.
\<close>

theorem clear_lines_compacts_and_scores:
  assumes "grid_ok (width b) (height b) (grid b)"
  shows "\<exists>b' n. clear_lines b = Some (b', n) \<and>
           n = int (length (filter py_all (grid b))) \<and>
           grid b' = replicate (nat n) (replicate (nat (width b)) 0)
                       @ filter (\<lambda>row. \<not> py_all row) (grid b) \<and>
           lines_cleared b' = lines_cleared b + n \<and>
           score b' = score b + points n \<and>
           width b' = width b \<and> height b' = height b \<and> game_over b' = game_over b \<and>
           (n = 0 \<longrightarrow> b' = b)"
proof -
  have len: "int (length (grid b)) = height b" using assms by (simp add: grid_ok_def)
  let ?n = "int (length (filter py_all (grid b)))"
  show ?thesis
  proof (cases "?n > 0")
    case True
    then show ?thesis
      using clear_lines_eq[OF len]
      by (simp add: Let_def cleared_grid_def line_score_points)
  next
    case False
    then have e: "filter py_all (grid b) = []" by simp
    then have f: "filter (\<lambda>row. \<not> py_all row) (grid b) = grid b"
      by (simp add: filter_empty_conv)
    show ?thesis
      using clear_lines_eq[OF len] cleared_grid_none[OF e, of "width b"] e f
      by (simp add: Let_def points_def)
  qed
qed


text \<open>
  The scenario of the specification: the bottom row of the 10 by 20 board full, every
  other row empty; one line is cleared, the grid is empty afterwards, the score grows by
  exactly 100.
\<close>

theorem clear_lines_compacts_and_scores_witness:
  "\<exists>b'. clear_lines bottom_row_full = Some (b', 1) \<and>
         grid b' = replicate 20 (replicate 10 0) \<and>
         score b' = score bottom_row_full + 100 \<and>
         lines_cleared b' = lines_cleared bottom_row_full + 1"
proof -
  have ok: "grid_ok (width bottom_row_full) (height bottom_row_full) (grid bottom_row_full)"
    by (simp add: bottom_row_full_def grid_ok_def list_all_iff)
  have full: "py_all (replicate 10 1)" and empty: "\<not> py_all (replicate 10 0)"
    by (simp_all add: py_all_def truthy_def list_all_iff)
  have n: "filter py_all (grid bottom_row_full) = [replicate 10 1]"
    and rest: "filter (\<lambda>row. \<not> py_all row) (grid bottom_row_full) = replicate 19 (replicate 10 0)"
    using full empty by (simp_all add: bottom_row_full_def)
  from clear_lines_compacts_and_scores[OF ok] obtain b' n where
    r: "clear_lines bottom_row_full = Some (b', n)"
      "n = int (length (filter py_all (grid bottom_row_full)))"
      "grid b' = replicate (nat n) (replicate (nat (width bottom_row_full)) 0)
                   @ filter (\<lambda>row. \<not> py_all row) (grid bottom_row_full)"
      "lines_cleared b' = lines_cleared bottom_row_full + n"
      "score b' = score bottom_row_full + points n"
    by blast
  have n1: "n = 1" using r(2) n by simp
  have "replicate (Suc 0) (replicate 10 (0::int)) @ replicate 19 (replicate 10 0)
      = replicate (Suc 0 + 19) (replicate 10 0)"
    by (simp only: replicate_add)
  then have "grid b' = replicate 20 (replicate 10 0)"
    using r(3) n1 rest by (simp add: bottom_row_full_def)
  then show ?thesis using r n1 by (simp add: points_def)
qed

lemma length_cleared_grid: "length (cleared_grid w g) = length g"
  by (simp add: cleared_grid_def sum_length_filter_compl)

lemma empty_row_not_full: "0 < w \<Longrightarrow> \<not> py_all (replicate (nat w) 0)"
  by (cases "nat w") (auto simp: py_all_def truthy_def)

lemma cleared_grid_no_full: "0 < w \<Longrightarrow> filter py_all (cleared_grid w g) = []"
  by (auto simp: cleared_grid_def filter_empty_conv empty_row_not_full)

lemma cleared_grid_ok: "grid_ok w h g \<Longrightarrow> 0 \<le> w \<Longrightarrow> grid_ok w h (cleared_grid w g)"
  unfolding grid_ok_def length_cleared_grid
  by (auto simp: cleared_grid_def list_all_iff)

text \<open>
  C9. On a well-formed board, after \<open>clear_lines\<close> no row of the grid is full, and a second
  \<open>clear_lines\<close> right after returns 0 and leaves the board (grid, score, lines-cleared
  total) as it is.
\<close>

theorem clear_lines_idempotent:
  assumes "wf_board b"
  shows "\<exists>b' n. clear_lines b = Some (b', n) \<and> wf_board b' \<and>
           \<not> list_ex py_all (grid b') \<and> clear_lines b' = Some (b', 0)"
proof -
  have len: "int (length (grid b)) = height b" and w: "0 < width b"
    using assms by (simp_all add: wf_board_def grid_ok_def)
  obtain b' n where r: "clear_lines b = Some (b', n)"
    and g': "grid b' = cleared_grid (width b) (grid b)"
    and dims: "width b' = width b" "height b' = height b"
    using clear_lines_eq[OF len] by (simp add: Let_def split: if_splits)
  have nofull: "filter py_all (grid b') = []"
    using g' w by (simp add: cleared_grid_no_full)
  have len': "int (length (grid b')) = height b'"
    using g' dims len by (simp add: length_cleared_grid)
  have wf': "wf_board b'"
    using assms g' dims cleared_grid_ok[of "width b" "height b" "grid b"]
    by (simp add: wf_board_def)
  have "clear_lines b' = Some (b', 0)"
    using clear_lines_eq[OF len'] nofull cleared_grid_none[OF nofull, of "width b'"]
    by (simp add: Let_def)
  moreover have "\<not> list_ex py_all (grid b')"
    using nofull by (simp add: filter_empty_conv list_ex_iff)
  ultimately show ?thesis using r wf' by blast
qed

theorem clear_lines_idempotent_witness:
  "\<exists>b'. clear_lines board_2x3 = Some (b', 1) \<and> grid b' = [[0, 0], [0, 1], [1, 0]] \<and>
         \<not> list_ex py_all (grid b') \<and> clear_lines b' = Some (b', 0)"
proof -
  have wf: "wf_board board_2x3"
    by (simp add: wf_board_def grid_ok_def board_2x3_def)
  have first: "clear_lines board_2x3 =
      Some (board_2x3\<lparr>grid := [[0, 0], [0, 1], [1, 0]], lines_cleared := 1, score := 100\<rparr>, 1)"
    by (simp add: board_2x3_def clear_lines_def py_range_def py_getitem_def py_delitem_def
        norm_index_def upt_rec py_all_def truthy_def line_score_def score_table_def)
  from clear_lines_idempotent[OF wf] first show ?thesis
    by auto
qed
section \<open>The pool: draws\<close>

lemma get_piece_pos:
  "bank fb t = Some c \<Longrightarrow> 0 < c \<Longrightarrow> get_piece fb t = (True, fb\<lparr>bank := (bank fb)(t \<mapsto> c - 1)\<rparr>)"
  by (simp add: get_piece_def)

lemma get_piece_nonpos:
  "bank fb t = Some c \<Longrightarrow> c \<le> 0 \<Longrightarrow> get_piece fb t = (False, fb)"
  by (simp add: get_piece_def)

lemma draw_n_exhausts:
  "bank fb t = Some (int n) \<Longrightarrow>
     \<exists>fb'. draw_n fb t n = (replicate n True, fb') \<and> bank fb' t = Some 0"
proof (induction n arbitrary: fb)
  case 0
  then show ?case by simp
next
  case (Suc n)
  let ?fb1 = "fb\<lparr>bank := (bank fb)(t \<mapsto> int n)\<rparr>"
  have g: "get_piece fb t = (True, ?fb1)"
    using get_piece_pos[OF Suc.prems] by simp
  have "bank ?fb1 t = Some (int n)" by simp
  from Suc.IH[OF this] obtain fb' where
    "draw_n ?fb1 t n = (replicate n True, fb')" "bank fb' t = Some 0" by blast
  then show ?case using g by simp
qed

text \<open>
  C7. For a type \<open>t\<close> of the pool with count \<open>c\<close>: \<open>get_piece\<close> succeeds exactly when \<open>c\<close> is
  positive, and then the count of \<open>t\<close> becomes \<open>c - 1\<close> and nothing else changes; otherwise
  it returns false and the pool is unchanged; so a pool without negative counts stays
  without negative counts. After \<open>c\<close> draws of \<open>t\<close>, all successful, \<open>is_available t\<close> is false
  and one more draw fails and changes nothing.
\<close>

theorem get_piece_draws_while_positive:
  assumes "bank fb t = Some c"
  shows "(fst (get_piece fb t) \<longleftrightarrow> 0 < c) \<and>
         (0 < c \<longrightarrow> snd (get_piece fb t) = fb\<lparr>bank := (bank fb)(t \<mapsto> c - 1)\<rparr>) \<and>
         (c \<le> 0 \<longrightarrow> snd (get_piece fb t) = fb) \<and>
         (counts_nonneg fb \<longrightarrow> counts_nonneg (snd (get_piece fb t))) \<and>
         (0 \<le> c \<longrightarrow>
            (\<exists>fb'. draw_n fb t (nat c) = (replicate (nat c) True, fb') \<and>
                   \<not> is_available fb' t \<and> get_piece fb' t = (False, fb')))"
proof (intro conjI impI)
  show "fst (get_piece fb t) \<longleftrightarrow> 0 < c"
    using assms by (simp add: get_piece_def)
  show "snd (get_piece fb t) = fb\<lparr>bank := (bank fb)(t \<mapsto> c - 1)\<rparr>" if "0 < c"
    using assms that by (simp add: get_piece_def)
  show "snd (get_piece fb t) = fb" if "c \<le> 0"
    using assms that by (simp add: get_piece_def)
  show "counts_nonneg (snd (get_piece fb t))" if "counts_nonneg fb"
    using assms that by (auto simp: get_piece_def counts_nonneg_def)
  show "\<exists>fb'. draw_n fb t (nat c) = (replicate (nat c) True, fb') \<and>
           \<not> is_available fb' t \<and> get_piece fb' t = (False, fb')" if "0 \<le> c"
  proof -
    have "bank fb t = Some (int (nat c))" using assms that by simp
    from draw_n_exhausts[OF this] obtain fb' where
      d: "draw_n fb t (nat c) = (replicate (nat c) True, fb')" "bank fb' t = Some 0" by blast
    have "\<not> is_available fb' t" using d(2) by (simp add: is_available_def)
    moreover have "get_piece fb' t = (False, fb')" using d(2) by (simp add: get_piece_def)
    ultimately show ?thesis using d(1) by blast
  qed
qed

text \<open>
  The scenario of the specification: the pool with 15 of each type; 15 draws of \<open>I\<close>
  succeed, then \<open>I\<close> is not available and the 16th draw fails.
\<close>

theorem get_piece_draws_while_positive_witness:
  "\<exists>fb'. draw_n (new_FigureBank 15) ''I'' 15 = (replicate 15 True, fb') \<and>
         \<not> is_available fb' ''I'' \<and> fst (get_piece fb' ''I'') = False \<and>
         snd (get_piece fb' ''I'') = fb'"
proof -
  have b: "bank (new_FigureBank 15) ''I'' = Some 15"
    by (simp add: new_FigureBank_def TETROMINO_TYPES_def)
  from get_piece_draws_while_positive[OF b] show ?thesis by auto
qed

section \<open>add\_garbage\_lines\<close>

lemma garbage_row_cells:
  "hole < nat w \<Longrightarrow>
     length (garbage_row w hole) = nat w \<and> garbage_row w hole ! hole = 0 \<and>
     (\<forall>i < nat w. i \<noteq> hole \<longrightarrow> garbage_row w hole ! i = 1)"
  by (simp add: garbage_row_def)

lemma randint_hole:
  assumes "0 < w"
  shows "randint 0 (w - 1) r = Some (int (r 0 mod nat w), rng_tail r)"
proof -
  have "int (r 0) mod w = int (r 0 mod nat w)"
    using assms by (simp add: zmod_int)
  then show ?thesis using assms by (simp add: randint_def)
qed

lemma setitem_hole:
  assumes "0 < w"
  shows "py_setitem (replicate (nat w) 1) (int (r mod nat w)) 0 = Some (garbage_row w (r mod nat w))"
proof -
  have "r mod nat w < nat w" using assms by simp
  then have "int (r mod nat w) < w" "0 \<le> int (r mod nat w)" using assms by linarith+
  then have "norm_index (length (replicate (nat w) (1::int))) (int (r mod nat w)) = Some (r mod nat w)"
    using assms by (simp add: norm_index_def)
  then show ?thesis
    by (simp add: py_setitem_def garbage_row_def)
qed

lemma garbage_loop_eq:
  assumes "0 < w" "g \<noteq> []"
  shows "garbage_loop w k g r =
           Some (drop k (g @ map (garbage_row w) (hole_columns w r k)), (\<lambda>i. r (i + k)))"
  using assms(2)
proof (induction k arbitrary: g r)
  case 0
  then show ?case by (simp add: hole_columns_def)
next
  case (Suc k)
  obtain x rest where g: "g = x # rest" using Suc.prems by (cases g) auto
  let ?row = "garbage_row w (r 0 mod nat w)"
  have ne: "rest @ [?row] \<noteq> []" by simp
  have cols: "hole_columns w r (Suc k) = (r 0 mod nat w) # hole_columns w (rng_tail r) k"
    unfolding hole_columns_def rng_tail_def by (simp only: map_upt_Suc)
  have tail: "(\<lambda>i. rng_tail r (i + k)) = (\<lambda>i. r (i + Suc k))"
    by (simp add: rng_tail_def)
  have "garbage_loop w (Suc k) g r = garbage_loop w k (rest @ [?row]) (rng_tail r)"
    using g randint_hole[OF assms(1), of r] setitem_hole[OF assms(1), of "r 0"]
    by (simp add: py_pop0_def)
  also have "\<dots> = Some (drop k ((rest @ [?row]) @ map (garbage_row w) (hole_columns w (rng_tail r) k)),
                         (\<lambda>i. rng_tail r (i + k)))"
    by (rule Suc.IH[OF ne])
  finally show ?case using g cols tail by simp
qed

lemma hole_columns_props:
  "0 < w \<Longrightarrow> length (hole_columns w r k) = k \<and> list_all (\<lambda>h. h < nat w) (hole_columns w r k)"
  by (simp add: hole_columns_def list_all_iff)

lemma garbage_rows_ok:
  "0 < w \<Longrightarrow> list_all (\<lambda>row. int (length row) = w) (map (garbage_row w) (hole_columns w r k))"
  by (auto simp: list_all_iff hole_columns_def garbage_row_def)

lemma filter_update_replicate:
  assumes "h < n" "a \<noteq> c"
  shows "filter (\<lambda>x. x = c) ((replicate n a)[h := c]) = [c]"
    and "filter (\<lambda>x. x = a) ((replicate n a)[h := c]) = replicate (n - 1) a"
proof -
  have e: "(replicate n a)[h := c] = replicate h a @ c # replicate (n - Suc h) a"
    using assms(1) by (simp add: upd_conv_take_nth_drop)
  show "filter (\<lambda>x. x = c) ((replicate n a)[h := c]) = [c]"
    unfolding e using assms(2) by simp
  have "replicate h a @ replicate (n - Suc h) a = replicate (n - 1) a"
    using assms(1) by (simp flip: replicate_add)
  then show "filter (\<lambda>x. x = a) ((replicate n a)[h := c]) = replicate (n - 1) a"
    unfolding e using assms(2) by simp
qed

lemma garbage_row_one_hole: "0 < w \<Longrightarrow> h < nat w \<Longrightarrow> one_hole w (garbage_row w h)"
  unfolding one_hole_def garbage_row_def
  by (simp add: filter_update_replicate)


lemma hole_columns_any:
  assumes "list_all (\<lambda>h. h < nat w) hs"
  shows "hole_columns w (\<lambda>i. hs ! i) (length hs) = hs"
proof -
  have "map (\<lambda>i. hs ! i mod nat w) [0..<length hs] = map (\<lambda>i. hs ! i) [0..<length hs]"
    using assms by (auto simp: list_all_length)
  then show ?thesis by (simp add: hole_columns_def map_nth)
qed

lemma add_garbage_lines_eq:
  assumes "wf_board b"
  shows "add_garbage_lines b n r =
           Some (b\<lparr>grid := drop (nat n)
                    (grid b @ map (garbage_row (width b)) (hole_columns (width b) r (nat n)))\<rparr>,
                 (\<lambda>i. r (i + nat n)))"
proof -
  have w: "0 < width b" and ne: "grid b \<noteq> []"
    using assms by (auto simp: wf_board_def grid_ok_def)
  show ?thesis
    using garbage_loop_eq[OF w ne, of "nat n" r] by (simp add: add_garbage_lines_def)
qed

text \<open>
  C8. On a well-formed board, \<open>add_garbage_lines n\<close> returns normally; the new grid is the
  old grid followed by \<open>n\<close> garbage rows, without its first \<open>n\<close> rows (for \<open>n\<close> up to the
  height: the old grid without its \<open>n\<close> topmost rows, then the \<open>n\<close> garbage rows); every
  garbage row has the board's width and exactly one empty cell, all others filled; the
  hole of each row is the column the random generator gives, and every sequence of
  columns is given by some generator; the number of rows and all other fields are
  unchanged.
\<close>

theorem add_garbage_lines_shifts:
  assumes "wf_board b"
  shows "\<exists>b' r'. add_garbage_lines b n r = Some (b', r') \<and>
           grid b' = drop (nat n) (grid b @ map (garbage_row (width b)) (hole_columns (width b) r (nat n))) \<and>
           (n \<le> height b \<longrightarrow>
              grid b' = drop (nat n) (grid b)
                          @ map (garbage_row (width b)) (hole_columns (width b) r (nat n))) \<and>
           length (hole_columns (width b) r (nat n)) = nat n \<and>
           list_all (\<lambda>h. h < nat (width b)) (hole_columns (width b) r (nat n)) \<and>
           list_all (one_hole (width b))
             (map (garbage_row (width b)) (hole_columns (width b) r (nat n))) \<and>
           length (grid b') = length (grid b) \<and> wf_board b' \<and>
           width b' = width b \<and> height b' = height b \<and> score b' = score b \<and>
           lines_cleared b' = lines_cleared b \<and> game_over b' = game_over b \<and>
           (\<forall>hs. length hs = nat n \<and> list_all (\<lambda>h. h < nat (width b)) hs \<longrightarrow>
                 (\<exists>r0. hole_columns (width b) r0 (nat n) = hs))"
proof -
  let ?w = "width b" and ?k = "nat n"
  let ?rows = "map (garbage_row ?w) (hole_columns ?w r ?k)"
  let ?g' = "drop ?k (grid b @ ?rows)"
  let ?b' = "b\<lparr>grid := ?g'\<rparr>"
  have w: "0 < ?w" and h: "0 < height b" and ok: "grid_ok ?w (height b) (grid b)"
    using assms by (simp_all add: wf_board_def)
  have run: "add_garbage_lines b n r = Some (?b', (\<lambda>i. r (i + ?k)))"
    by (rule add_garbage_lines_eq[OF assms])
  have len: "length ?g' = length (grid b)"
    using hole_columns_props[OF w, of r ?k] by simp
  have rows_ok: "list_all (\<lambda>row. int (length row) = ?w) ?rows"
    by (rule garbage_rows_ok[OF w])
  have "list_all (\<lambda>row. int (length row) = ?w) (grid b @ ?rows)"
    using ok rows_ok by (simp add: grid_ok_def)
  then have "list_all (\<lambda>row. int (length row) = ?w) ?g'"
    by (auto simp: list_all_iff dest: in_set_dropD)
  then have wf': "wf_board ?b'"
    using w h ok len by (simp add: wf_board_def grid_ok_def)
  have small: "grid ?b' = drop ?k (grid b) @ ?rows" if "n \<le> height b"
  proof -
    have "int (length (grid b)) = height b" using ok by (simp add: grid_ok_def)
    then have "?k \<le> length (grid b)" using that by linarith
    then show ?thesis by simp
  qed
  have holes: "list_all (one_hole ?w) ?rows"
    using w by (auto simp: list_all_iff hole_columns_def intro!: garbage_row_one_hole)
  have any: "\<forall>hs. length hs = ?k \<and> list_all (\<lambda>h. h < nat ?w) hs \<longrightarrow>
                 (\<exists>r0. hole_columns ?w r0 ?k = hs)"
  proof (intro allI impI)
    fix hs assume a: "length hs = ?k \<and> list_all (\<lambda>h. h < nat ?w) hs"
    then have "hole_columns ?w (\<lambda>i. hs ! i) ?k = hs"
      using hole_columns_any[of ?w hs] by simp
    then show "\<exists>r0. hole_columns ?w r0 ?k = hs" by blast
  qed
  show ?thesis
    using run len wf' small holes any hole_columns_props[OF w, of r ?k]
    by (intro exI[of _ ?b'] exI[of _ "\<lambda>i. r (i + ?k)"]) simp
qed

lemma garbage_row_0: "0 < w \<Longrightarrow> garbage_row w 0 = 0 # replicate (nat w - 1) 1"
  by (cases "nat w") (simp_all add: garbage_row_def)

lemma replicate_20: "x # replicate 19 x = replicate 20 x"
proof -
  have "replicate (Suc 19) x = replicate 20 x" by (simp del: replicate_Suc)
  then show ?thesis by (simp only: replicate_Suc)
qed

text \<open>
  One garbage line on the 2 by 3 board, the generator drawing 0: the top row goes, the
  row \<open>[0, 1]\<close> (hole at column 0) comes in at the bottom.
\<close>

theorem add_garbage_lines_shifts_witness:
  "\<exists>b' r'. add_garbage_lines board_2x3 1 zero_rng = Some (b', r') \<and>
           grid b' = [[1, 1], [1, 0], [0, 1]] \<and> length (grid b') = length (grid board_2x3) \<and>
           one_hole 2 [0, 1] \<and> score b' = 0"
proof -
  have wf: "wf_board board_2x3"
    by (simp add: wf_board_def grid_ok_def board_2x3_def)
  have rows: "map (garbage_row (width board_2x3)) (hole_columns (width board_2x3) zero_rng (nat 1))
                = [[0, 1]]"
    by (simp add: board_2x3_def hole_columns_def garbage_row_0 zero_rng_def)
  from add_garbage_lines_shifts[OF wf, of 1 zero_rng] obtain b' r' where
    r: "add_garbage_lines board_2x3 1 zero_rng = Some (b', r')"
      "grid b' = drop (nat 1) (grid board_2x3
          @ map (garbage_row (width board_2x3)) (hole_columns (width board_2x3) zero_rng (nat 1)))"
      "list_all (one_hole (width board_2x3))
         (map (garbage_row (width board_2x3)) (hole_columns (width board_2x3) zero_rng (nat 1)))"
      "length (grid b') = length (grid board_2x3)" "score b' = score board_2x3"
    by blast
  have "grid b' = [[1, 1], [1, 0], [0, 1]]"
    using r(2) unfolding rows by (simp add: board_2x3_def)
  moreover have "one_hole 2 [0, 1]"
    using r(3) unfolding rows by (simp add: board_2x3_def)
  ultimately show ?thesis using r(1,4,5) by (simp add: board_2x3_def)
qed

section \<open>The terminal condition\<close>

lemma is_game_over_top:
  "grid b \<noteq> [] \<Longrightarrow> is_game_over b = Some (py_any (grid b ! 0))"
  by (simp add: is_game_over_def py_getitem_def norm_index_def)

lemma place_keeps_top:
  assumes "wf_board b" "py_any (grid b ! 0)"
  shows "\<exists>b'. place_piece b piece x y = Some b' \<and> is_game_over b' = Some True \<and>
              game_over b' = game_over b"
proof -
  have ok: "grid_ok (width b) (height b) (grid b)" and h: "0 < height b"
    using assms(1) by (simp_all add: wf_board_def)
  from place_piece_char[OF ok, of piece x y] obtain b' where
    b': "place_piece b piece x y = Some b'" "game_over b' = game_over b" and
    ok': "grid_ok (width b) (height b) (grid b')" and
    cells: "\<forall>j i. j < nat (height b) \<longrightarrow> i < nat (width b) \<longrightarrow>
              grid b' ! j ! i = (if covers (shape piece) x y j i then 1 else grid b ! j ! i)"
    by blast
  have ne: "grid b \<noteq> []" and ne': "grid b' \<noteq> []"
    using h ok ok' by (auto simp: grid_ok_def)
  have l0: "length (grid b ! 0) = nat (width b)" "length (grid b' ! 0) = nat (width b)"
    using grid_ok_row[OF ok, of 0] grid_ok_row[OF ok', of 0] ne ne' by auto
  from assms(2) obtain i where i: "i < length (grid b ! 0)" "truthy (grid b ! 0 ! i)"
    by (auto simp: py_any_def list_ex_length)
  have "grid b' ! 0 ! i = (if covers (shape piece) x y 0 i then 1 else grid b ! 0 ! i)"
    using cells h i(1) l0 by simp
  then have "truthy (grid b' ! 0 ! i)" using i(2) by (simp add: truthy_def)
  then have "py_any (grid b' ! 0)" using i(1) l0 by (auto simp: py_any_def list_ex_length)
  then show ?thesis using is_game_over_top[OF ne'] b' by simp
qed

lemma garbage_row_any:
  assumes "h < nat w"
  shows "py_any (garbage_row w h) \<longleftrightarrow> 1 < w"
proof -
  have e: "garbage_row w h = replicate h 1 @ 0 # replicate (nat w - Suc h) 1"
    using assms by (simp add: garbage_row_def upd_conv_take_nth_drop)
  have "py_any (garbage_row w h) \<longleftrightarrow> 0 < h \<or> 0 < nat w - Suc h"
    unfolding e by (auto simp: py_any_def truthy_def list_ex_iff)
  then show ?thesis using assms by auto
qed

lemma add_garbage_top:
  assumes "wf_board b"
  shows "\<exists>b' r'. add_garbage_lines b n r = Some (b', r') \<and> game_over b' = game_over b \<and>
           is_game_over b' =
             Some (if n \<le> 0 then py_any (grid b ! 0)
                   else if n < height b then py_any (grid b ! nat n)
                   else 1 < width b)"
proof -
  let ?w = "width b" and ?k = "nat n"
  let ?cols = "hole_columns ?w r ?k"
  let ?all = "grid b @ map (garbage_row ?w) ?cols"
  let ?b' = "b\<lparr>grid := drop ?k ?all\<rparr>"
  have w: "0 < ?w" and h: "0 < height b" and len: "int (length (grid b)) = height b"
    using assms by (simp_all add: wf_board_def grid_ok_def)
  have lc: "length ?cols = ?k" by (simp add: hole_columns_def)
  have ne': "grid ?b' \<noteq> []" using h len lc by auto
  have "?k \<le> length ?all" using lc by simp
  then have "drop ?k ?all ! 0 = ?all ! (?k + 0)" by (rule nth_drop)
  then have top: "grid ?b' ! 0 = ?all ! ?k" by (simp del: drop_append)
  have "py_any (?all ! ?k) =
          (if n \<le> 0 then py_any (grid b ! 0)
           else if n < height b then py_any (grid b ! nat n) else 1 < ?w)"
  proof (cases "n < height b")
    case True
    then have "?k < length (grid b)" using len h by linarith
    then have "?all ! ?k = grid b ! ?k" by (simp add: nth_append)
    then show ?thesis using True by auto
  next
    case False
    then have ge: "length (grid b) \<le> ?k" and pos: "\<not> n \<le> 0" using len h by linarith+
    let ?i = "?k - length (grid b)"
    have i: "?i < length ?cols" using lc ge h len by linarith
    have "?all ! ?k = garbage_row ?w (?cols ! ?i)"
      using ge i by (simp add: nth_append)
    moreover have "?cols ! ?i < nat ?w"
      using hole_columns_props[OF w, of r ?k] i by (simp add: list_all_length)
    ultimately show ?thesis using False pos by (simp add: garbage_row_any)
  qed
  then have "is_game_over ?b' =
      Some (if n \<le> 0 then py_any (grid b ! 0)
            else if n < height b then py_any (grid b ! nat n) else 1 < ?w)"
    using is_game_over_top[OF ne'] top by simp
  then show ?thesis
    using add_garbage_lines_eq[OF assms, of n r] by simp
qed

lemma clear_lines_top:
  assumes "wf_board b"
  shows "\<exists>b' k. clear_lines b = Some (b', k) \<and> game_over b' = game_over b \<and>
           k = int (length (filter py_all (grid b))) \<and>
           is_game_over b' = Some (k = 0 \<and> py_any (grid b ! 0))"
proof -
  have len: "int (length (grid b)) = height b" and w: "0 < width b" and ne: "grid b \<noteq> []"
    using assms by (auto simp: wf_board_def grid_ok_def)
  let ?k = "length (filter py_all (grid b))"
  show ?thesis
  proof (cases "?k = 0")
    case True
    then have e: "filter py_all (grid b) = []" by simp
    have "clear_lines b = Some (b, 0)"
      using clear_lines_eq[OF len] cleared_grid_none[OF e, of "width b"] e by (simp add: Let_def)
    then show ?thesis using True is_game_over_top[OF ne] by simp
  next
    case False
    let ?b' = "b\<lparr>grid := cleared_grid (width b) (grid b),
                 lines_cleared := lines_cleared b + int ?k,
                 score := score b + line_score (int ?k)\<rparr>"
    have r: "clear_lines b = Some (?b', int ?k)"
      using clear_lines_eq[OF len] False by (simp add: Let_def)
    have ne': "grid ?b' \<noteq> []" using False by (simp add: cleared_grid_def)
    have "grid ?b' ! 0 = replicate (nat (width b)) 0"
      using False by (simp add: cleared_grid_def nth_append)
    then have "\<not> py_any (grid ?b' ! 0)"
      by (simp add: py_any_def truthy_def list_ex_iff)
    then have "is_game_over ?b' = Some False" using is_game_over_top[OF ne'] by simp
    then show ?thesis using r False by simp
  qed
qed


text \<open>
  C3, as the code has it. On a well-formed board on which \<open>is_game_over\<close> is true:
  after \<open>place_piece\<close> (any piece, any offset) it is still true; after \<open>clear_lines\<close> it is
  true exactly when no row was cleared (a cleared row puts an empty row on top); after
  \<open>add_garbage_lines n\<close> it is true for \<open>n \<le> 0\<close>, for \<open>0 < n < height\<close> exactly when row \<open>n\<close>
  of the old grid was not empty (that row becomes the top row), and for \<open>n \<ge> height\<close>
  exactly when the width is at least 2 (the top row is a garbage row). None of the three
  changes the stored \<open>game_over\<close> field.
\<close>

theorem game_over_kept_or_cleared:
  assumes "wf_board b" "is_game_over b = Some True"
  shows "(\<exists>b'. place_piece b piece x y = Some b' \<and> is_game_over b' = Some True \<and>
               game_over b' = game_over b) \<and>
         (\<exists>b' k. clear_lines b = Some (b', k) \<and> k = int (length (filter py_all (grid b))) \<and>
                 is_game_over b' = Some (k = 0) \<and> game_over b' = game_over b) \<and>
         (\<exists>b' r'. add_garbage_lines b n r = Some (b', r') \<and> game_over b' = game_over b \<and>
                  is_game_over b' =
                    Some (if n \<le> 0 then True
                          else if n < height b then py_any (grid b ! nat n)
                          else 1 < width b))"
proof -
  have ne: "grid b \<noteq> []" using assms(1) by (auto simp: wf_board_def grid_ok_def)
  have top: "py_any (grid b ! 0)" using assms(2) is_game_over_top[OF ne] by simp
  have p: "\<exists>b'. place_piece b piece x y = Some b' \<and> is_game_over b' = Some True \<and>
               game_over b' = game_over b"
    by (rule place_keeps_top[OF assms(1) top])
  have c: "\<exists>b' k. clear_lines b = Some (b', k) \<and> k = int (length (filter py_all (grid b))) \<and>
                 is_game_over b' = Some (k = 0) \<and> game_over b' = game_over b"
    using clear_lines_top[OF assms(1)] top by auto
  have e: "(if n \<le> 0 then py_any (grid b ! 0)
            else if n < height b then py_any (grid b ! nat n) else 1 < width b)
         = (if n \<le> 0 then True
            else if n < height b then py_any (grid b ! nat n) else 1 < width b)"
    using top by simp
  have a: "\<exists>b' r'. add_garbage_lines b n r = Some (b', r') \<and> game_over b' = game_over b \<and>
                  is_game_over b' =
                    Some (if n \<le> 0 then True
                          else if n < height b then py_any (grid b ! nat n)
                          else 1 < width b)"
    using add_garbage_top[OF assms(1), of n r] unfolding e .
  from p c a show ?thesis by (intro conjI)
qed

theorem game_over_kept_or_cleared_witness:
  "(\<exists>b'. place_piece top_block piece_T 3 5 = Some b' \<and> is_game_over b' = Some True) \<and>
   (\<exists>b'. clear_lines top_block = Some (b', 0) \<and> is_game_over b' = Some True) \<and>
   (\<exists>b' r'. add_garbage_lines top_block 0 zero_rng = Some (b', r') \<and> is_game_over b' = Some True)"
proof -
  have wf: "wf_board top_block"
    by (simp add: wf_board_def grid_ok_def top_block_def list_all_iff)
  have go: "is_game_over top_block = Some True"
    by (simp add: is_game_over_def top_block_def py_getitem_def norm_index_def py_any_def truthy_def)
  have nofull: "filter py_all (grid top_block) = []"
    by (simp add: top_block_def py_all_def truthy_def list_all_iff)
  show ?thesis
    using game_over_kept_or_cleared[OF wf go, of piece_T 3 5 0 zero_rng] nofull
    by auto
qed

text \<open>
  C3 as stated fails. The 10 by 20 board with only its top row full is terminal, and
  \<open>clear_lines\<close> clears that row: the board is empty and not terminal any more. The board
  with one block in the top row is terminal, and one garbage line pops the top row: the
  new top row is empty.
\<close>

theorem game_over_cleared_counterexample:
  "is_game_over top_row_full = Some True \<and>
   clear_lines top_row_full =
     Some (top_row_full\<lparr>grid := replicate 20 (replicate 10 0), lines_cleared := 1, score := 100\<rparr>, 1) \<and>
   is_game_over (top_row_full\<lparr>grid := replicate 20 (replicate 10 0), lines_cleared := 1,
                   score := 100\<rparr>) = Some False \<and>
   is_game_over top_block = Some True \<and>
   map_option fst (add_garbage_lines top_block 1 zero_rng) =
     Some (top_block\<lparr>grid := replicate 19 (replicate 10 0) @ [0 # replicate 9 1]\<rparr>) \<and>
   is_game_over (top_block\<lparr>grid := replicate 19 (replicate 10 0) @ [0 # replicate 9 1]\<rparr>)
     = Some False"
proof -
  have full: "py_all (replicate 10 1)" and empty: "\<not> py_all (replicate 10 0)"
    and none: "\<not> py_any (replicate 10 0)"
    by (simp_all add: py_all_def py_any_def truthy_def list_all_iff list_ex_iff)
  have g1: "is_game_over top_row_full = Some True"
    by (simp add: is_game_over_def top_row_full_def py_getitem_def norm_index_def py_any_def
        truthy_def list_ex_iff)
  have len: "int (length (grid top_row_full)) = height top_row_full"
    by (simp add: top_row_full_def)
  have "cleared_grid (width top_row_full) (grid top_row_full) = replicate 20 (replicate 10 0)"
    using full empty by (simp add: cleared_grid_def top_row_full_def replicate_20)
  then have c: "clear_lines top_row_full =
     Some (top_row_full\<lparr>grid := replicate 20 (replicate 10 0), lines_cleared := 1, score := 100\<rparr>, 1)"
    using clear_lines_eq[OF len] full empty
    by (simp add: Let_def top_row_full_def line_score_def score_table_def)
  have g2: "is_game_over (top_row_full\<lparr>grid := replicate 20 (replicate 10 0), lines_cleared := 1,
                   score := 100\<rparr>) = Some False"
    using none by (simp add: is_game_over_top)
  have g3: "is_game_over top_block = Some True"
    by (simp add: is_game_over_def top_block_def py_getitem_def norm_index_def py_any_def truthy_def)
  have wf: "wf_board top_block"
    by (simp add: wf_board_def grid_ok_def top_block_def list_all_iff)
  have "map (garbage_row (width top_block)) (hole_columns (width top_block) zero_rng (nat 1))
          = [0 # replicate 9 1]"
    by (simp add: top_block_def hole_columns_def garbage_row_0 zero_rng_def)
  then have a: "map_option fst (add_garbage_lines top_block 1 zero_rng) =
     Some (top_block\<lparr>grid := replicate 19 (replicate 10 0) @ [0 # replicate 9 1]\<rparr>)"
    using add_garbage_lines_eq[OF wf, of 1 zero_rng] by (simp add: top_block_def)
  have g4: "is_game_over (top_block\<lparr>grid := replicate 19 (replicate 10 0) @ [0 # replicate 9 1]\<rparr>)
     = Some False"
    using none by (simp add: is_game_over_top nth_append)
  show ?thesis using g1 c g2 g3 a g4 by simp
qed

section \<open>The hard drop\<close>

lemma can_place_cells_total:
  assumes "grid_ok (width b) (height b) (grid b)"
  shows "can_place_cells b cells by bx \<noteq> None"
proof (induction cells arbitrary: bx)
  case Nil
  then show ?case by simp
next
  case (Cons c cs)
  show ?case
  proof (cases "truthy c \<and> \<not> (bx < 0 \<or> bx \<ge> width b \<or> by < 0 \<or> by \<ge> height b)")
    case True
    then have "grid_cell (grid b) by bx = Some (grid b ! nat by ! nat bx)"
      using grid_cell_ok[OF assms, of "by" bx] by simp
    then show ?thesis using True Cons.IH[of "bx + 1"] by auto
  next
    case False
    then show ?thesis using Cons.IH[of "bx + 1"] by auto
  qed
qed

lemma can_place_rows_total:
  assumes "grid_ok (width b) (height b) (grid b)"
  shows "can_place_rows b rows x by \<noteq> None"
proof (induction rows arbitrary: "by")
  case Nil
  then show ?case by simp
next
  case (Cons r rs)
  show ?case
    using can_place_cells_total[OF assms, of r "by" x] Cons.IH[of "by + 1"]
    by (auto split: option.splits bool.splits)
qed

lemma can_place_total:
  "wf_board b \<Longrightarrow> can_place b piece x y = Some True \<or> can_place b piece x y = Some False"
  using can_place_rows_total[of b "shape piece" x y]
  by (cases "can_place b piece x y") (auto simp: can_place_def wf_board_def)

lemma drop_loop_char:
  "wf_board b \<Longrightarrow> y0 \<le> height b \<Longrightarrow>
     \<exists>y1. drop_loop b piece x y0 = Some y1 \<and> y0 \<le> y1 \<and> y1 \<le> height b \<and>
          (\<forall>y. y0 \<le> y \<and> y < y1 \<longrightarrow> can_place b piece x y = Some True) \<and>
          (y1 < height b \<longrightarrow> can_place b piece x y1 = Some False)"
proof (induction b piece x y0 rule: drop_loop.induct)
  case (1 b piece x y)
  note wf = \<open>wf_board b\<close>
  show ?case
  proof (cases "y < height b")
    case False
    then have "drop_loop b piece x y = Some y" by (simp add: drop_loop.simps)
    then show ?thesis using False "1.prems" by auto
  next
    case True
    from can_place_total[OF wf, of piece x y] show ?thesis
    proof
      assume t: "can_place b piece x y = Some True"
      have "y + 1 \<le> height b" using True by simp
      from "1.IH"[OF True t _ wf this] obtain y1 where
        y1: "drop_loop b piece x (y + 1) = Some y1" "y + 1 \<le> y1" "y1 \<le> height b"
          "\<forall>y'. y + 1 \<le> y' \<and> y' < y1 \<longrightarrow> can_place b piece x y' = Some True"
          "y1 < height b \<longrightarrow> can_place b piece x y1 = Some False"
        by blast
      have "drop_loop b piece x y = Some y1"
        using True t y1(1) by (subst drop_loop.simps) simp
      moreover have "\<forall>y'. y \<le> y' \<and> y' < y1 \<longrightarrow> can_place b piece x y' = Some True"
      proof (intro allI impI)
        fix y' assume a: "y \<le> y' \<and> y' < y1"
        show "can_place b piece x y' = Some True"
        proof (cases "y' = y")
          case True then show ?thesis using t by simp
        next
          case False then show ?thesis using a y1(4) by simp
        qed
      qed
      ultimately show ?thesis using y1(2,3,5) by auto
    next
      assume f: "can_place b piece x y = Some False"
      have "drop_loop b piece x y = Some y"
        using True f by (subst drop_loop.simps) simp
      then show ?thesis using True f by auto
    qed
  qed
qed


lemma hard_drop_char:
  assumes "wf_board b"
  shows "\<exists>y1. 0 \<le> y1 \<and> y1 \<le> height b \<and>
          (\<forall>y. 0 \<le> y \<and> y < y1 \<longrightarrow> can_place b piece x y = Some True) \<and>
          (y1 < height b \<longrightarrow> can_place b piece x y1 = Some False) \<and>
          hard_drop b piece x = Some (if 0 < y1 then Some (y1 - 1) else None)"
proof -
  have h: "0 \<le> height b" using assms by (simp add: wf_board_def)
  from drop_loop_char[OF assms h, of piece x] obtain y1 where
    y1: "drop_loop b piece x 0 = Some y1" "0 \<le> y1" "y1 \<le> height b"
      "\<forall>y. 0 \<le> y \<and> y < y1 \<longrightarrow> can_place b piece x y = Some True"
      "y1 < height b \<longrightarrow> can_place b piece x y1 = Some False"
    by blast
  have "hard_drop b piece x = Some (if 0 < y1 then Some (y1 - 1) else None)"
  proof (cases "0 < y1")
    case True
    then have "can_place b piece x (y1 - 1) = Some True" using y1(4) by simp
    then show ?thesis using True y1(1) by (simp add: hard_drop_def)
  next
    case False
    then show ?thesis using y1(1) by (simp add: hard_drop_def)
  qed
  then show ?thesis using y1 by blast
qed

text \<open>
  C4, as the code has it. On a well-formed board, for every piece (every rotation) and
  every offset \<open>x\<close>, the hard drop returns normally; it skips the combination exactly when
  the piece cannot be placed at row 0; otherwise it rests the piece at the row \<open>y\<close> such
  that the piece can be placed at every row from 0 to \<open>y\<close> and either \<open>y\<close> is the last row
  or the piece cannot be placed at row \<open>y + 1\<close>: the last row a straight fall from the top
  reaches.
\<close>

theorem hard_drop_rests_at_first_block:
  assumes "wf_board b"
  shows "hard_drop b piece x \<noteq> None \<and>
         (hard_drop b piece x = Some None \<longleftrightarrow> can_place b piece x 0 = Some False) \<and>
         (\<forall>y. hard_drop b piece x = Some (Some y) \<longleftrightarrow>
               0 \<le> y \<and> y < height b \<and>
               (\<forall>y'. 0 \<le> y' \<and> y' \<le> y \<longrightarrow> can_place b piece x y' = Some True) \<and>
               (y + 1 < height b \<longrightarrow> can_place b piece x (y + 1) = Some False))"
proof -
  have h: "0 < height b" using assms by (simp add: wf_board_def)
  from hard_drop_char[OF assms, of piece x] obtain y1 where
    y1: "0 \<le> y1" "y1 \<le> height b"
      "\<forall>y. 0 \<le> y \<and> y < y1 \<longrightarrow> can_place b piece x y = Some True"
      "y1 < height b \<longrightarrow> can_place b piece x y1 = Some False"
      "hard_drop b piece x = Some (if 0 < y1 then Some (y1 - 1) else None)"
    by blast
  have skip: "hard_drop b piece x = Some None \<longleftrightarrow> can_place b piece x 0 = Some False"
  proof (cases "0 < y1")
    case True
    then have "can_place b piece x 0 = Some True" using y1(3) by simp
    then show ?thesis using True y1(5) by simp
  next
    case False
    then have "y1 = 0" using y1(1) by simp
    then show ?thesis using y1(4,5) h by simp
  qed
  have rest: "hard_drop b piece x = Some (Some y) \<longleftrightarrow>
               0 \<le> y \<and> y < height b \<and>
               (\<forall>y'. 0 \<le> y' \<and> y' \<le> y \<longrightarrow> can_place b piece x y' = Some True) \<and>
               (y + 1 < height b \<longrightarrow> can_place b piece x (y + 1) = Some False)" for y
  proof
    assume "hard_drop b piece x = Some (Some y)"
    then have "0 < y1" "y = y1 - 1" using y1(5) by (auto split: if_splits)
    then show "0 \<le> y \<and> y < height b \<and>
               (\<forall>y'. 0 \<le> y' \<and> y' \<le> y \<longrightarrow> can_place b piece x y' = Some True) \<and>
               (y + 1 < height b \<longrightarrow> can_place b piece x (y + 1) = Some False)"
      using y1(2,3,4) by auto
  next
    assume r: "0 \<le> y \<and> y < height b \<and>
               (\<forall>y'. 0 \<le> y' \<and> y' \<le> y \<longrightarrow> can_place b piece x y' = Some True) \<and>
               (y + 1 < height b \<longrightarrow> can_place b piece x (y + 1) = Some False)"
    have "\<not> y1 \<le> y"
    proof
      assume le: "y1 \<le> y"
      then have "can_place b piece x y1 = Some False" using y1(4) r by auto
      moreover have "can_place b piece x y1 = Some True" using r le y1(1) by auto
      ultimately show False by simp
    qed
    moreover have "\<not> y + 1 < y1"
    proof
      assume lt: "y + 1 < y1"
      then have "can_place b piece x (y + 1) = Some True" using y1(3) r by auto
      moreover have "can_place b piece x (y + 1) = Some False" using r lt y1(2) by auto
      ultimately show False by simp
    qed
    ultimately have "y1 = y + 1" by simp
    then show "hard_drop b piece x = Some (Some y)" using y1(5) r by simp
  qed
  show ?thesis using skip rest y1(5) by simp
qed

theorem hard_drop_rests_at_first_block_witness:
  "hard_drop overhang piece_I 1 = Some (Some 17) \<and>
   can_place overhang piece_I 1 0 = Some True \<and> can_place overhang piece_I 1 17 = Some True \<and>
   can_place overhang piece_I 1 18 = Some False"
proof -
  have wf: "wf_board overhang"
    by (simp add: wf_board_def grid_ok_def overhang_def list_all_iff)
  have e: "hard_drop overhang piece_I 1 = Some (Some 17)"
    by code_simp
  have h: "height overhang = 20" by (simp add: overhang_def)
  from hard_drop_rests_at_first_block[OF wf, of piece_I 1] have
    "hard_drop overhang piece_I 1 = Some (Some 17) \<longleftrightarrow>
       0 \<le> (17::int) \<and> 17 < height overhang \<and>
       (\<forall>y'. 0 \<le> y' \<and> y' \<le> 17 \<longrightarrow> can_place overhang piece_I 1 y' = Some True) \<and>
       (17 + 1 < height overhang \<longrightarrow> can_place overhang piece_I 1 (17 + 1) = Some False)"
    by blast
  with e h have
    a: "\<forall>y'. 0 \<le> y' \<and> y' \<le> 17 \<longrightarrow> can_place overhang piece_I 1 y' = Some True"
    and b: "can_place overhang piece_I 1 18 = Some False"
    by simp_all
  from a have "can_place overhang piece_I 1 0 = Some True" "can_place overhang piece_I 1 17 = Some True"
    by simp_all
  with e b show ?thesis by simp
qed

text \<open>
  C4 as stated fails. On the board \<open>overhang\<close> the I piece (rotation 0) at \<open>x = 1\<close> rests at
  row 17, on the roof, although it can be placed at row 19, in the cavity: the drop does
  not find the largest valid \<open>y\<close>. On the board with only the top row full the
  combination (rotation 0, \<open>x = 0\<close>) is skipped although row 19 is a valid resting row.
\<close>

theorem hard_drop_not_lowest_counterexample:
  "hard_drop overhang piece_I 1 = Some (Some 17) \<and> can_place overhang piece_I 1 19 = Some True \<and>
   hard_drop top_row_full piece_I 0 = Some None \<and> can_place top_row_full piece_I 0 19 = Some True"
  by code_simp

section \<open>The placement search\<close>

lemma py_range_bounds: "y \<in> set (py_range n) \<Longrightarrow> 0 \<le> y \<and> y < n"
  by (auto simp: py_range_def)

lemma column_height_total:
  assumes "grid_ok (width b) (height b) (grid b)" "0 \<le> x" "x < width b"
  shows "(\<forall>y \<in> set ys. 0 \<le> y \<and> y < height b) \<Longrightarrow> column_height b x ys \<noteq> None"
proof (induction ys)
  case Nil
  then show ?case by simp
next
  case (Cons y ys)
  then have "grid_cell (grid b) y x = Some (grid b ! nat y ! nat x)"
    using grid_cell_ok[OF assms(1), of y x] assms(2,3) by simp
  then show ?case using Cons by auto
qed

lemma height_map_from_total:
  assumes "grid_ok (width b) (height b) (grid b)"
  shows "(\<forall>x \<in> set xs. 0 \<le> x \<and> x < width b) \<Longrightarrow> height_map_from b xs \<noteq> None"
proof (induction xs)
  case Nil
  then show ?case by simp
next
  case (Cons x xs)
  have "column_height b x (py_range (height b)) \<noteq> None"
    using column_height_total[OF assms, of x "py_range (height b)"] Cons.prems py_range_bounds
    by auto
  then show ?case using Cons by auto
qed

lemma get_height_map_total:
  "grid_ok (width b) (height b) (grid b) \<Longrightarrow> get_height_map b \<noteq> None"
  unfolding get_height_map_def
  by (rule height_map_from_total) (auto dest: py_range_bounds)

lemma get_max_height_total:
  "grid_ok (width b) (height b) (grid b) \<Longrightarrow> get_max_height b \<noteq> None"
  using get_height_map_total[of b] by (auto simp: get_max_height_def)

lemma holes_in_column_total:
  assumes "grid_ok w h g" "0 \<le> x" "x < w"
  shows "(\<forall>y \<in> set ys. 0 \<le> y \<and> y < h) \<Longrightarrow> holes_in_column g x ys found holes \<noteq> None"
proof (induction ys arbitrary: found holes)
  case Nil
  then show ?case by simp
next
  case (Cons y ys)
  then have "grid_cell g y x = Some (g ! nat y ! nat x)"
    using grid_cell_ok[OF assms(1), of y x] assms(2,3) by simp
  then show ?case using Cons by auto
qed

lemma count_holes_total:
  assumes "grid_ok w h g"
  shows "(\<forall>x \<in> set xs. 0 \<le> x \<and> x < w) \<Longrightarrow> count_holes g h xs holes \<noteq> None"
proof (induction xs arbitrary: holes)
  case Nil
  then show ?case by simp
next
  case (Cons x xs)
  have "holes_in_column g x (py_range h) False holes \<noteq> None"
    using holes_in_column_total[OF assms, of x "py_range h"] Cons.prems py_range_bounds
    by auto
  then show ?case using Cons by auto
qed

lemma count_lines_from_total:
  "(\<forall>y \<in> set ys. 0 \<le> y \<and> y < int (length g)) \<Longrightarrow> count_lines_from g ys c \<noteq> None"
proof (induction ys arbitrary: c)
  case Nil
  then show ?case by simp
next
  case (Cons y ys)
  then have "py_getitem g y = Some (g ! nat y)"
    by (simp add: py_getitem_def norm_index_in)
  then show ?case using Cons by auto
qed

lemma count_potential_lines_total:
  "grid_ok (width b) (height b) (grid b) \<Longrightarrow> count_potential_lines b \<noteq> None"
  unfolding count_potential_lines_def
  by (rule count_lines_from_total) (auto simp: grid_ok_def dest: py_range_bounds)

lemma evaluate_position_total:
  assumes "grid_ok (width b) (height b) (grid b)"
  shows "evaluate_position ag b piece x y \<noteq> None"
proof -
  let ?t = "(new_GameBoard (width b) (height b))\<lparr>grid := grid b\<rparr>"
  have dims: "width ?t = width b" "height ?t = height b" "grid ?t = grid b"
    by (simp_all add: new_GameBoard_def)
  have ok: "grid_ok (width ?t) (height ?t) (grid ?t)" using assms dims by simp
  from place_piece_char[OF ok, of piece x y] obtain t' where
    t': "place_piece ?t piece x y = Some t'" "width t' = width b" "height t' = height b"
      "grid_ok (width b) (height b) (grid t')"
    using dims by auto
  have ok': "grid_ok (width t') (height t') (grid t')" using t' by simp
  obtain mh where mh: "get_max_height t' = Some mh"
    using get_max_height_total[OF ok'] by auto
  obtain hs where hs: "get_height_map t' = Some hs"
    using get_height_map_total[OF ok'] by auto
  obtain ho where ho: "count_holes (grid t') (height b) (py_range (width b)) 0 = Some ho"
    using count_holes_total[OF t'(4), of "py_range (width b)" 0] py_range_bounds by fastforce
  obtain ln where ln: "count_potential_lines t' = Some ln"
    using count_potential_lines_total[OF ok'] by auto
  show ?thesis
    using t'(1) mh hs ho ln by (simp add: evaluate_position_def Let_def)
qed

lemma evaluate_position_strategy:
  "strategy ag2 = strategy ag \<Longrightarrow> evaluate_position ag2 b piece x y = evaluate_position ag b piece x y"
  unfolding evaluate_position_def by (simp only:)


lemma search_x_fold:
  assumes "wf_board b"
  shows "search_x ag b pc rot xs best
           = Some (foldl keep_best best (concat (map (cand_x ag b pc rot) xs)))"
proof (induction xs arbitrary: best)
  case Nil
  then show ?case by simp
next
  case (Cons x xs)
  have ok: "grid_ok (width b) (height b) (grid b)" using assms by (simp add: wf_board_def)
  from hard_drop_char[OF assms, of pc x] obtain r where r: "hard_drop b pc x = Some r" by blast
  show ?case
  proof (cases r)
    case None
    then show ?thesis using r Cons.IH by (simp add: cand_x_def)
  next
    case (Some y)
    obtain s where s: "evaluate_position ag b pc x y = Some s"
      using evaluate_position_total[OF ok, of ag pc x y] by auto
    show ?thesis
      using r Some s Cons.IH by (simp add: cand_x_def keep_best_def)
  qed
qed

lemma search_rotations_fold:
  assumes "wf_board b" "SHAPES t \<noteq> None"
  shows "search_rotations ag b t rots best
           = Some (foldl keep_best best (concat (map (cands_rot ag b t) rots)))"
proof (induction rots arbitrary: best)
  case Nil
  then show ?case by simp
next
  case (Cons rot rots)
  from assms(2) obtain fresh where f: "new_Tetromino t = Some fresh"
    by (auto simp: new_Tetromino_def)
  show ?case
    using f Cons.IH search_x_fold[OF assms(1)]
    by (simp add: cands_rot_def Let_def)
qed

lemma foldl_keep_best_Some:
  "\<exists>p s. foldl keep_best (Some p0, Some s0) cs = (Some p, Some s) \<and>
          is_first_max ((p0, s0) # cs) p s"
proof (induction cs arbitrary: p0 s0)
  case Nil
  have "is_first_max [(p0, s0)] p0 s0"
    unfolding is_first_max_def by (intro exI[of _ "[]"]) simp
  then show ?case by simp
next
  case (Cons c cs)
  obtain p1 s1 where c: "c = (p1, s1)" by (cases c)
  show ?case
  proof (cases "s1 > s0")
    case True
    from Cons.IH[of p1 s1] obtain p s where
      r: "foldl keep_best (Some p1, Some s1) cs = (Some p, Some s)"
      and m: "is_first_max ((p1, s1) # cs) p s" by blast
    from m obtain pre post where
      pp: "(p1, s1) # cs = pre @ (p, s) # post" "\<forall>c \<in> set pre. snd c < s" "\<forall>c \<in> set post. snd c \<le> s"
      unfolding is_first_max_def by blast
    have "s1 \<le> s"
    proof (cases pre)
      case Nil then show ?thesis using pp(1) by simp
    next
      case (Cons a list) then show ?thesis using pp(1,2) by auto
    qed
    then have "s0 < s" using True by simp
    then have "is_first_max ((p0, s0) # c # cs) p s"
      unfolding is_first_max_def c using pp
      by (intro exI[of _ "(p0, s0) # pre"] exI[of _ post]) simp
    moreover have "foldl keep_best (Some p0, Some s0) (c # cs) = (Some p, Some s)"
      using True r by (simp add: c keep_best_def better_def)
    ultimately show ?thesis by blast
  next
    case False
    from Cons.IH[of p0 s0] obtain p s where
      r: "foldl keep_best (Some p0, Some s0) cs = (Some p, Some s)"
      and m: "is_first_max ((p0, s0) # cs) p s" by blast
    from m obtain pre post where
      pp: "(p0, s0) # cs = pre @ (p, s) # post" "\<forall>c \<in> set pre. snd c < s" "\<forall>c \<in> set post. snd c \<le> s"
      unfolding is_first_max_def by blast
    have "is_first_max ((p0, s0) # c # cs) p s"
    proof (cases pre)
      case Nil
      then have e: "p = p0" "s = s0" "post = cs" using pp(1) by simp_all
      show ?thesis unfolding is_first_max_def c e
        using pp(3) e False by (intro exI[of _ "[]"] exI[of _ "(p1, s1) # cs"]) simp
    next
      case (Cons a pre')
      then have e: "a = (p0, s0)" "cs = pre' @ (p, s) # post" using pp(1) by simp_all
      have "s0 < s" using pp(2) Cons e by simp
      then show ?thesis unfolding is_first_max_def c
        using pp(2,3) e Cons False
        by (intro exI[of _ "(p0, s0) # (p1, s1) # pre'"] exI[of _ post]) auto
    qed
    moreover have "foldl keep_best (Some p0, Some s0) (c # cs) = (Some p, Some s)"
      using False r by (simp add: c keep_best_def better_def)
    ultimately show ?thesis by blast
  qed
qed

lemma foldl_keep_best_init:
  "foldl keep_best (None, None) cs =
     (case cs of [] \<Rightarrow> (None, None) | c # cs' \<Rightarrow> foldl keep_best (Some (fst c), Some (snd c)) cs')"
  by (cases cs) (simp_all add: keep_best_def better_def)

lemma find_skip_prefix:
  "find P xs = None \<Longrightarrow> P x \<Longrightarrow> find P (xs @ x # ys) = Some x"
  by (induction xs) (auto split: if_splits)

lemma is_first_max_find:
  assumes "is_first_max cs p s"
  shows "first_max cs = Some (p, s)"
proof -
  from assms obtain pre post where
    pp: "cs = pre @ (p, s) # post" "\<forall>c \<in> set pre. snd c < s" "\<forall>c \<in> set post. snd c \<le> s"
    unfolding is_first_max_def by blast
  let ?P = "\<lambda>c. \<forall>c' \<in> set cs. snd c' \<le> snd c"
  have top: "?P (p, s)" using pp by auto
  have "\<not> ?P c" if "c \<in> set pre" for c
  proof -
    have "snd c < s" using pp(2) that by simp
    moreover have "(p, s) \<in> set cs" using pp(1) by simp
    ultimately show ?thesis by force
  qed
  then have "find ?P pre = None" by (force simp: find_None_iff)
  then have "find ?P (pre @ (p, s) # post) = Some (p, s)"
    using top by (rule find_skip_prefix)
  then show ?thesis unfolding first_max_def pp(1)[symmetric] .
qed

lemma search_result:
  "foldl keep_best (None, None) cs =
     (map_option fst (first_max cs), map_option snd (first_max cs))"
proof (cases cs)
  case Nil
  then show ?thesis by (simp add: first_max_def)
next
  case (Cons c cs')
  obtain p0 s0 where c: "c = (p0, s0)" by (cases c)
  from foldl_keep_best_Some[of p0 s0 cs'] obtain p s where
    r: "foldl keep_best (Some p0, Some s0) cs' = (Some p, Some s)"
    and m: "is_first_max ((p0, s0) # cs') p s" by blast
  have "first_max cs = Some (p, s)" using is_first_max_find[OF m] Cons c by simp
  then show ?thesis using r Cons c by (simp add: keep_best_def better_def)
qed


lemma decide_placement_eq:
  assumes "wf_board b" "SHAPES (ptype piece) \<noteq> None"
  shows "decide_placement ag b piece c =
           Some (spec_decide_placement ag b (ptype piece),
                 ag\<lparr>decision_times := decision_times ag @ [c 1 - c 0]\<rparr>,
                 (\<lambda>i. c (Suc (Suc i))))"
proof -
  have "search_rotations ag b (ptype piece) (py_range 4) (None, None)
          = Some (map_option fst (first_max (candidates ag b (ptype piece))),
                  map_option snd (first_max (candidates ag b (ptype piece))))"
    using search_rotations_fold[OF assms, of ag "py_range 4" "(None, None)"]
    by (simp add: candidates_def search_result)
  then show ?thesis
    by (cases "first_max (candidates ag b (ptype piece))")
      (auto simp: decide_placement_def time_time_def spec_decide_placement_def)
qed

lemma cand_x_strategy:
  "strategy ag2 = strategy ag \<Longrightarrow> cand_x ag2 b pc rot x = cand_x ag b pc rot x"
  unfolding cand_x_def using evaluate_position_strategy[of ag2 ag b pc x]
  by (auto split: option.splits)

lemma candidates_strategy:
  assumes "strategy ag2 = strategy ag"
  shows "candidates ag2 b t = candidates ag b t"
proof -
  have "cand_x ag2 b pc rot = cand_x ag b pc rot" for pc rot
    using cand_x_strategy[OF assms] by blast
  then have "cands_rot ag2 b t = cands_rot ag b t"
    unfolding cands_rot_def by (simp only:)
  then show ?thesis by (simp add: candidates_def)
qed

lemma first_max_Some:
  assumes "first_max cs = Some (p, s)"
  shows "is_first_max cs p s"
proof (cases cs)
  case Nil
  then show ?thesis using assms by (simp add: first_max_def)
next
  case (Cons c cs')
  obtain p0 s0 where c: "c = (p0, s0)" by (cases c)
  from foldl_keep_best_Some[of p0 s0 cs'] obtain p' s' where
    m: "is_first_max ((p0, s0) # cs') p' s'" by blast
  then have "first_max cs = Some (p', s')" using is_first_max_find Cons c by simp
  then show ?thesis using assms m Cons c by simp
qed

lemma first_max_None: "first_max cs = None \<longleftrightarrow> cs = []"
proof
  assume n: "first_max cs = None"
  show "cs = []"
  proof (cases cs)
    case Nil then show ?thesis .
  next
    case (Cons c cs')
    obtain p0 s0 where c: "c = (p0, s0)" by (cases c)
    from foldl_keep_best_Some[of p0 s0 cs'] obtain p' s' where
      "is_first_max ((p0, s0) # cs') p' s'" by blast
    then have "first_max cs = Some (p', s')" using is_first_max_find Cons c by simp
    then show ?thesis using n by simp
  qed
next
  assume "cs = []" then show "first_max cs = None" by (simp add: first_max_def)
qed

lemma cand_x_empty:
  assumes "wf_board b"
  shows "cand_x ag b pc rot x = [] \<longleftrightarrow> hard_drop b pc x = Some None"
proof -
  have ok: "grid_ok (width b) (height b) (grid b)" using assms by (simp add: wf_board_def)
  from hard_drop_char[OF assms, of pc x] obtain r where r: "hard_drop b pc x = Some r" by blast
  show ?thesis
  proof (cases r)
    case None then show ?thesis using r by (simp add: cand_x_def)
  next
    case (Some y)
    obtain s where "evaluate_position ag b pc x y = Some s"
      using evaluate_position_total[OF ok, of ag pc x y] by auto
    then show ?thesis using r Some by (simp add: cand_x_def)
  qed
qed

lemma candidates_empty:
  assumes "wf_board b" "new_Tetromino t = Some fresh"
  shows "candidates ag b t = [] \<longleftrightarrow>
           (\<forall>rot \<in> set (py_range 4).
              \<forall>x \<in> set (py_range (width b - get_width (rotate_n (nat rot) fresh) + 1)).
                hard_drop b (rotate_n (nat rot) fresh) x = Some None)"
  using assms(2) by (simp add: candidates_def cands_rot_def Let_def cand_x_empty[OF assms(1)])

text \<open>
  C6. On a well-formed board, for a piece of a canonical type, \<open>decide_placement\<close> returns
  normally and its placement is \<open>spec_decide_placement\<close>: the position of the first
  candidate of maximal score in rotation-ascending, then \<open>x\<close>-ascending order (every
  candidate before it scores strictly less, every one after it at most as much), and the
  fallback \<open>(width div 2, 0, 0)\<close> when there is no candidate, that is when every
  (rotation, \<open>x\<close>) combination is skipped. The placement is the same for every agent of
  the same strategy, whatever its recorded decision times, and for every clock: repeated
  invocations return the same placement. Each invocation appends one time sample.
\<close>

theorem decide_placement_first_maximum:
  assumes "wf_board b" "new_Tetromino (ptype piece) = Some fresh"
  shows "(\<exists>ag' c'. decide_placement ag b piece c
                     = Some (spec_decide_placement ag b (ptype piece), ag', c') \<and>
                   decision_times ag' = decision_times ag @ [c 1 - c 0] \<and>
                   strategy ag' = strategy ag) \<and>
         (\<forall>ag2 c2. strategy ag2 = strategy ag \<longrightarrow>
            map_option fst (decide_placement ag2 b piece c2)
              = Some (spec_decide_placement ag b (ptype piece))) \<and>
         (\<forall>pos s. first_max (candidates ag b (ptype piece)) = Some (pos, s) \<longrightarrow>
            spec_decide_placement ag b (ptype piece) = pos \<and>
            (\<exists>pre post. candidates ag b (ptype piece) = pre @ (pos, s) # post \<and>
                        (\<forall>c \<in> set pre. snd c < s) \<and> (\<forall>c \<in> set post. snd c \<le> s))) \<and>
         (first_max (candidates ag b (ptype piece)) = None \<longleftrightarrow>
            candidates ag b (ptype piece) = []) \<and>
         (candidates ag b (ptype piece) = [] \<longleftrightarrow>
            (\<forall>rot \<in> set (py_range 4).
               \<forall>x \<in> set (py_range (width b - get_width (rotate_n (nat rot) fresh) + 1)).
                 hard_drop b (rotate_n (nat rot) fresh) x = Some None)) \<and>
         (candidates ag b (ptype piece) = [] \<longrightarrow>
            spec_decide_placement ag b (ptype piece) = (width b div 2, 0, 0))"
proof -
  have sh: "SHAPES (ptype piece) \<noteq> None"
    using assms(2) by (auto simp: new_Tetromino_def split: option.splits)
  have one: "\<exists>ag' c'. decide_placement ag b piece c
                     = Some (spec_decide_placement ag b (ptype piece), ag', c') \<and>
                   decision_times ag' = decision_times ag @ [c 1 - c 0] \<and>
                   strategy ag' = strategy ag"
    using decide_placement_eq[OF assms(1) sh, of ag c] by simp
  have two: "\<forall>ag2 c2. strategy ag2 = strategy ag \<longrightarrow>
            map_option fst (decide_placement ag2 b piece c2)
              = Some (spec_decide_placement ag b (ptype piece))"
  proof (intro allI impI)
    fix ag2 :: AIAgent and c2 :: clock
    assume st: "strategy ag2 = strategy ag"
    have "spec_decide_placement ag2 b (ptype piece) = spec_decide_placement ag b (ptype piece)"
      by (simp add: spec_decide_placement_def candidates_strategy[OF st])
    then show "map_option fst (decide_placement ag2 b piece c2)
              = Some (spec_decide_placement ag b (ptype piece))"
      using decide_placement_eq[OF assms(1) sh, of ag2 c2] by simp
  qed
  have three: "\<forall>pos s. first_max (candidates ag b (ptype piece)) = Some (pos, s) \<longrightarrow>
            spec_decide_placement ag b (ptype piece) = pos \<and>
            (\<exists>pre post. candidates ag b (ptype piece) = pre @ (pos, s) # post \<and>
                        (\<forall>c \<in> set pre. snd c < s) \<and> (\<forall>c \<in> set post. snd c \<le> s))"
    using first_max_Some[of "candidates ag b (ptype piece)"]
    by (auto simp: spec_decide_placement_def is_first_max_def)
  have five: "candidates ag b (ptype piece) = [] \<longleftrightarrow>
            (\<forall>rot \<in> set (py_range 4).
               \<forall>x \<in> set (py_range (width b - get_width (rotate_n (nat rot) fresh) + 1)).
                 hard_drop b (rotate_n (nat rot) fresh) x = Some None)"
    by (rule candidates_empty[OF assms])
  have six: "candidates ag b (ptype piece) = [] \<longrightarrow>
            spec_decide_placement ag b (ptype piece) = (width b div 2, 0, 0)"
    by (simp add: spec_decide_placement_def first_max_def)
  from one two three first_max_None five six show ?thesis by (intro conjI)
qed

text \<open>
  The I piece on the empty 4 by 4 board, greedy strategy: rotations 0 and 2 both lie flat
  on the bottom row with the maximal score, and the first of them, rotation 0, is chosen.
\<close>

lemma cands_4x4:
  "candidates (new_AIAgent ''AI-1'' ''greedy'') (new_GameBoard 4 4) ''I''
     = [((0, 3, 0), - 2), ((0, 0, 1), - 12), ((1, 0, 1), - 16), ((2, 0, 1), - 16),
        ((3, 0, 1), - 12), ((0, 3, 2), - 2), ((0, 0, 3), - 12), ((1, 0, 3), - 16),
        ((2, 0, 3), - 16), ((3, 0, 3), - 12)]"
  by code_simp


theorem decide_placement_first_maximum_witness:
  "map_option fst (decide_placement (new_AIAgent ''AI-1'' ''greedy'') (new_GameBoard 4 4)
                     piece_I zero_clock) = Some (0, 3, 0) \<and>
   first_max (candidates (new_AIAgent ''AI-1'' ''greedy'') (new_GameBoard 4 4) ''I'')
     = Some ((0, 3, 0), - 2) \<and>
   ((0, 3, 2), - 2) \<in> set (candidates (new_AIAgent ''AI-1'' ''greedy'') (new_GameBoard 4 4) ''I'')"
proof -
  let ?ag = "new_AIAgent ''AI-1'' ''greedy''" and ?b = "new_GameBoard 4 4"
  have wf: "wf_board ?b"
    by (simp add: wf_board_def grid_ok_def new_GameBoard_def py_range_def list_all_iff)
  have fresh: "new_Tetromino (ptype piece_I) = Some piece_I"
    by (simp add: new_Tetromino_def SHAPES_def piece_I_def)
  have t: "ptype piece_I = ''I''" by (simp add: piece_I_def)
  have fm: "first_max (candidates ?ag ?b ''I'') = Some ((0, 3, 0), - 2)"
    unfolding cands_4x4 by (simp add: first_max_def)
  then have sp: "spec_decide_placement ?ag ?b ''I'' = (0, 3, 0)"
    by (simp add: spec_decide_placement_def)
  from decide_placement_first_maximum[OF wf fresh, of ?ag zero_clock] have
    "\<forall>ag2 c2. strategy ag2 = strategy ?ag \<longrightarrow>
       map_option fst (decide_placement ag2 ?b piece_I c2)
         = Some (spec_decide_placement ?ag ?b (ptype piece_I))"
    by blast
  then have "map_option fst (decide_placement ?ag ?b piece_I zero_clock) = Some (0, 3, 0)"
    using sp t by simp
  moreover have "((0, 3, 2), - 2) \<in> set (candidates ?ag ?b ''I'')"
    unfolding cands_4x4 by simp
  ultimately show ?thesis using fm by simp
qed

section \<open>The match: what is logged, and when a side loses\<close>

lemma hard_drop_Some:
  assumes "wf_board b" "hard_drop b piece x = Some (Some y)"
  shows "can_place b piece x y = Some True \<and>
         (y + 1 < height b \<longrightarrow> can_place b piece x (y + 1) = Some False)"
proof -
  from hard_drop_char[OF assms(1), of piece x] obtain y1 where
    y1: "0 \<le> y1" "y1 \<le> height b"
      "\<forall>y. 0 \<le> y \<and> y < y1 \<longrightarrow> can_place b piece x y = Some True"
      "y1 < height b \<longrightarrow> can_place b piece x y1 = Some False"
      "hard_drop b piece x = Some (if 0 < y1 then Some (y1 - 1) else None)"
    by blast
  have "0 < y1" "y = y1 - 1" using y1(5) assms(2) by (auto split: if_splits)
  then show ?thesis using y1(3,4) by auto
qed

lemma cand_x_mem:
  "(pos, s) \<in> set (cand_x ag b pc rot x) \<Longrightarrow>
     \<exists>y. pos = (x, y, rot) \<and> hard_drop b pc x = Some (Some y)"
  by (auto simp: cand_x_def split: option.splits)

lemma candidates_mem:
  assumes "(pos, s) \<in> set (candidates ag b t)" "new_Tetromino t = Some fresh"
  shows "\<exists>x y rot. pos = (x, y, rot) \<and> rot \<in> set (py_range 4) \<and>
           hard_drop b (rotate_n (nat rot) fresh) x = Some (Some y)"
proof -
  from assms(1) obtain rot where rot: "rot \<in> set (py_range 4)" "(pos, s) \<in> set (cands_rot ag b t rot)"
    by (auto simp: candidates_def)
  from rot(2) assms(2) obtain x where
    "(pos, s) \<in> set (cand_x ag b (rotate_n (nat rot) fresh) rot x)"
    by (auto simp: cands_rot_def Let_def)
  from cand_x_mem[OF this] rot(1) show ?thesis by blast
qed

lemma chosen_is_candidate:
  assumes "candidates ag b t \<noteq> []" "new_Tetromino t = Some fresh"
  shows "\<exists>x y rot. spec_decide_placement ag b t = (x, y, rot) \<and> rot \<in> set (py_range 4) \<and>
           hard_drop b (rotate_n (nat rot) fresh) x = Some (Some y)"
proof -
  from assms(1) obtain pos s where fm: "first_max (candidates ag b t) = Some (pos, s)"
    using first_max_None[of "candidates ag b t"] by (cases "first_max (candidates ag b t)") auto
  from first_max_Some[OF fm] have "(pos, s) \<in> set (candidates ag b t)"
    by (auto simp: is_first_max_def)
  from candidates_mem[OF this assms(2)] fm show ?thesis
    by (simp add: spec_decide_placement_def)
qed

lemma available_from_total:
  "list_all (\<lambda>t. bank fb t \<noteq> None) ts \<Longrightarrow> available_from fb ts \<noteq> None"
  by (induction ts) auto

lemma choose_attack_piece_total:
  assumes "bank_complete fb"
  shows "choose_attack_piece ag fb r \<noteq> None"
proof -
  obtain av where av: "get_available_pieces fb = Some av"
    using available_from_total[of fb TETROMINO_TYPES] assms
    by (auto simp: get_available_pieces_def bank_complete_def)
  show ?thesis
  proof (cases "av = []")
    case True
    then show ?thesis using av by (simp add: choose_attack_piece_def)
  next
    case False
    then show ?thesis using av
      by (auto simp: choose_attack_piece_def Let_def choice_def)
  qed
qed

lemma play_turn_total:
  assumes "wf_board b" "new_Tetromino t = Some fresh" "bank_complete fb"
  shows "play_turn ai b (Some t) fb w \<noteq> None"
proof -
  have sh: "SHAPES (ptype fresh) \<noteq> None" and pt: "ptype fresh = t"
    using assms(2) by (auto simp: new_Tetromino_def split: option.splits)
  have ok: "grid_ok (width b) (height b) (grid b)" using assms(1) by (simp add: wf_board_def)
  obtain x y rot where pos: "spec_decide_placement ai b (ptype fresh) = (x, y, rot)"
    by (cases "spec_decide_placement ai b (ptype fresh)") auto
  let ?ai' = "ai\<lparr>decision_times := decision_times ai @ [clk w 1 - clk w 0]\<rparr>"
  let ?c' = "\<lambda>i. clk w (Suc (Suc i))"
  let ?p = "rotate_n (nat rot) fresh"
  have d: "decide_placement ai b fresh (clk w) = Some ((x, y, rot), ?ai', ?c')"
    using decide_placement_eq[OF assms(1) sh, of ai "clk w"] pos by simp
  from can_place_total[OF assms(1), of ?p x y] show ?thesis
  proof
    assume "can_place b ?p x y = Some False"
    then show ?thesis using assms(2) d by (simp add: play_turn_def Let_def)
  next
    assume cp: "can_place b ?p x y = Some True"
    from place_piece_char[OF ok, of ?p x y] obtain placed where
      pl: "place_piece b ?p x y = Some placed" "width placed = width b" "height placed = height b"
        "grid_ok (width b) (height b) (grid placed)"
      by blast
    have "int (length (grid placed)) = height placed" using pl by (simp add: grid_ok_def)
    from clear_lines_eq[OF this] obtain b' lines where
      cl: "clear_lines placed = Some (b', lines)" by (auto simp: Let_def)
    obtain att r' where
      at: "choose_attack_piece ?ai' fb (rnd w) = Some (att, r')"
      using choose_attack_piece_total[OF assms(3), of ?ai' "rnd w"] by auto
    show ?thesis
    proof (cases "lines > 0")
      case True
      then show ?thesis
        using assms(2) d cp pl(1) cl at by (simp add: play_turn_def Let_def)
    next
      case False
      then show ?thesis
        using assms(2) d cp pl(1) cl by (simp add: play_turn_def Let_def)
    qed
  qed
qed

lemma ai1_turn_logs_origin:
  assumes "ai1_turn a w = Some (a', w', att)"
  shows "\<exists>e. events (match_log a') = events (match_log a) @ [e] \<and> ev_placement e = (0, 0, 0)"
  using assms
  by (auto simp: ai1_turn_def log_turn_def time_time_def split: option.splits prod.splits)


lemma ai1_turn_total:
  "play_turn (ai1 a) (board1 a) (current_piece_ai1 a) (arena_bank a) w \<noteq> None
     \<Longrightarrow> ai1_turn a w \<noteq> None"
  by (auto simp: ai1_turn_def log_turn_def time_time_def split: option.splits prod.splits)

lemma first_turn_drop: "hard_drop (new_GameBoard 10 20) piece_I 0 = Some (Some 19)"
  by code_simp

lemma wf_empty_10x20: "wf_board (new_GameBoard 10 20)"
  by (simp add: wf_board_def grid_ok_def new_GameBoard_def py_range_def list_all_iff)

lemma fresh_I: "new_Tetromino ''I'' = Some piece_I"
  by (simp add: new_Tetromino_def SHAPES_def piece_I_def)

lemma first_turn_bank: "bank_complete (arena_bank first_turn_arena)"
  by (simp add: bank_complete_def first_turn_arena_def TETROMINO_TYPES_def get_piece_def
      new_FigureBank_def)

lemma rng_tail_zero: "rng_tail zero_rng = zero_rng"
  by (simp add: rng_tail_def zero_rng_def)

lemma clock_tail_zero: "snd (time_time zero_clock) = zero_clock" "fst (time_time zero_clock) = 0"
  by (simp_all add: time_time_def zero_clock_def)

lemma avail15: "get_available_pieces (new_FigureBank 15) = Some TETROMINO_TYPES"
  by (simp add: get_available_pieces_def new_FigureBank_def TETROMINO_TYPES_def)

lemma avail14:
  "get_available_pieces (snd (get_piece (new_FigureBank 15) ''I'')) = Some TETROMINO_TYPES"
  by (simp add: get_available_pieces_def new_FigureBank_def TETROMINO_TYPES_def get_piece_def)

lemma run_match_reaches_first_turn:
  "run_match
     (fst (new_Arena (new_AIAgent ''AI-1'' ''greedy'') (new_AIAgent ''AI-2'' ''aggressive'')
             (new_FigureBank 15) first_turn_world))
     first_turn_world n
   = run_loop (first_turn_arena\<lparr>turn := 0\<rparr>) first_turn_world n"
proof -
  have c: "choice TETROMINO_TYPES zero_rng = Some (''I'', zero_rng)"
    by (simp add: choice_def TETROMINO_TYPES_def rng_tail_zero) (simp add: zero_rng_def)
  have ne: "TETROMINO_TYPES \<noteq> []" by (simp add: TETROMINO_TYPES_def)
  show ?thesis
    using ne by (simp add: run_match_def new_Arena_def new_MatchLog_def first_turn_world_def
        get_next_piece_def get_random_available_def avail15 avail14 c
        first_turn_arena_def time_time_def zero_clock_def)
qed

text \<open>
  C2 fails on the code. \<open>run_match\<close> passes the constant \<open>(0, 0, 0)\<close> to \<open>log_turn\<close>, and
  \<open>play_turn\<close> does not return the placement. In AI-1's first turn of the default match
  (\<open>run_match_reaches_first_turn\<close>) the placement \<open>decide_placement\<close> returns is valid, so
  it is committed, and it is not \<open>(0, 0, 0)\<close>; the turn returns normally and the record
  it appends to the log carries the placement \<open>(0, 0, 0)\<close>.
\<close>

theorem first_turn_log_misses_placement:
  "(case decide_placement (ai1 first_turn_arena) (board1 first_turn_arena) piece_I
           (clk first_turn_world) of
      None \<Rightarrow> False
    | Some (pos, ag', c') \<Rightarrow>
        pos \<noteq> (0, 0, 0) \<and>
        can_place (board1 first_turn_arena) (rotate_n (nat (snd (snd pos))) piece_I)
          (fst pos) (fst (snd pos)) = Some True) \<and>
   (case ai1_turn first_turn_arena first_turn_world of
      None \<Rightarrow> False
    | Some (a', w', att) \<Rightarrow> map ev_placement (events (match_log a')) = [(0, 0, 0)])"
proof -
  let ?b = "new_GameBoard 10 20" and ?ag = "ai1 first_turn_arena"
  have b: "board1 first_turn_arena = ?b" and cur: "current_piece_ai1 first_turn_arena = Some ''I''"
    and lg: "events (match_log first_turn_arena) = []"
    by (simp_all add: first_turn_arena_def)
  have pt: "ptype piece_I = ''I''" by (simp add: piece_I_def)
  have sh: "SHAPES (ptype piece_I) \<noteq> None" by (simp add: pt SHAPES_def)
  have r0: "rotate_n (nat 0) piece_I = piece_I" by simp
  have "0 \<in> set (py_range 4)" "0 \<in> set (py_range (width ?b - get_width (rotate_n (nat 0) piece_I) + 1))"
    by (simp_all add: py_range_def new_GameBoard_def get_width_def piece_I_def)
  then have ne: "candidates ?ag ?b ''I'' \<noteq> []"
    using candidates_empty[OF wf_empty_10x20 fresh_I, of ?ag] first_turn_drop r0
    by (metis option.distinct(1) option.inject)
  from chosen_is_candidate[OF ne fresh_I] obtain x y rot where
    ch: "spec_decide_placement ?ag ?b ''I'' = (x, y, rot)"
      "hard_drop ?b (rotate_n (nat rot) piece_I) x = Some (Some y)"
    by blast
  have valid: "can_place ?b (rotate_n (nat rot) piece_I) x y = Some True"
    using hard_drop_Some[OF wf_empty_10x20 ch(2)] by simp
  have "(x, y, rot) \<noteq> (0, 0, 0)"
  proof
    assume "(x, y, rot) = (0, 0, 0)"
    then have "hard_drop ?b piece_I 0 = Some (Some 0)" using ch(2) by simp
    then show False using first_turn_drop by simp
  qed
  then have one: "(case decide_placement ?ag (board1 first_turn_arena) piece_I
           (clk first_turn_world) of
      None \<Rightarrow> False
    | Some (pos, ag', c') \<Rightarrow>
        pos \<noteq> (0, 0, 0) \<and>
        can_place (board1 first_turn_arena) (rotate_n (nat (snd (snd pos))) piece_I)
          (fst pos) (fst (snd pos)) = Some True)"
    using decide_placement_eq[OF wf_empty_10x20 sh, of ?ag "clk first_turn_world"] ch(1) valid
    by (simp add: b pt)
  have "play_turn ?ag (board1 first_turn_arena) (current_piece_ai1 first_turn_arena)
          (arena_bank first_turn_arena) first_turn_world \<noteq> None"
    unfolding b cur by (rule play_turn_total[OF wf_empty_10x20 fresh_I first_turn_bank])
  then obtain r where r: "ai1_turn first_turn_arena first_turn_world = Some r"
    using ai1_turn_total[of first_turn_arena first_turn_world] by auto
  obtain a' w' att where r': "r = (a', w', att)" by (cases r)
  from ai1_turn_logs_origin[OF r[unfolded r']] lg
  have "map ev_placement (events (match_log a')) = [(0, 0, 0)]" by auto
  then have two: "(case ai1_turn first_turn_arena first_turn_world of
      None \<Rightarrow> False
    | Some (a', w', att) \<Rightarrow> map ev_placement (events (match_log a')) = [(0, 0, 0)])"
    using r r' by simp
  from one two show ?thesis by (rule conjI)
qed

lemma stuck_half:
  "(case ai1_half (stuck_arena\<lparr>turn := turn stuck_arena + 1\<rparr>) start_world of
      None \<Rightarrow> False
    | Some (a1, w1, lost1) \<Rightarrow>
        \<not> lost1 \<and> game_over (board1 a1) \<and> grid (board1 a1) = grid garbage_board \<and>
        is_game_over (board1 a1) = Some False \<and>
        map ev_lines_cleared (events (match_log a1)) = [0] \<and>
        map ev_turn (events (match_log a1)) = [8] \<and>
        current_piece_ai1 a1 = Some ''I'')"
  by code_simp

text \<open>
  C1 fails on the code. In \<open>stuck_arena\<close> no rotation and column takes AI-1's O piece, the
  fallback placement \<open>(5, 0, 0)\<close> fails \<open>can_place\<close>, and \<open>play_turn\<close> sets the board's
  \<open>game_over\<close> field and returns zero lines. \<open>run_match\<close> never reads that field: it asks
  \<open>is_game_over\<close>, which looks at the top row, and the top row is empty. So AI-1 has not
  lost after its half of the pass, and the pass goes on with AI-2's half, which alone
  decides how the pass ends: AI-2 cannot be returned as the winner of this pass.
\<close>

theorem fallback_failure_does_not_end_match:
  "(case ai1_half (stuck_arena\<lparr>turn := turn stuck_arena + 1\<rparr>) start_world of
      None \<Rightarrow> False
    | Some (a1, w1, lost1) \<Rightarrow>
        \<not> lost1 \<and> game_over (board1 a1) \<and> grid (board1 a1) = grid garbage_board \<and>
        is_game_over (board1 a1) = Some False \<and>
        map ev_lines_cleared (events (match_log a1)) = [0] \<and>
        match_pass stuck_arena start_world =
          (case ai2_half a1 w1 of
             None \<Rightarrow> None
           | Some (a2, w2, lost2) \<Rightarrow>
               if lost2 then
                 (case end_match (name (ai1 a2)) a2 w2 of
                    (win, a', w') \<Rightarrow> Some (Finished win a' w'))
               else Some (Running a2 w2)))"
proof (cases "ai1_half (stuck_arena\<lparr>turn := turn stuck_arena + 1\<rparr>) start_world")
  case None
  then show ?thesis using stuck_half by simp
next
  case (Some r)
  obtain a1 w1 lost1 where r: "r = (a1, w1, lost1)" by (cases r)
  have f: "\<not> lost1" "game_over (board1 a1)" "grid (board1 a1) = grid garbage_board"
    "is_game_over (board1 a1) = Some False" "map ev_lines_cleared (events (match_log a1)) = [0]"
    using stuck_half Some r by simp_all
  have "match_pass stuck_arena start_world =
          (case ai2_half a1 w1 of
             None \<Rightarrow> None
           | Some (a2, w2, lost2) \<Rightarrow>
               if lost2 then
                 (case end_match (name (ai1 a2)) a2 w2 of
                    (win, a', w') \<Rightarrow> Some (Finished win a' w'))
               else Some (Running a2 w2))"
    using Some r f(1) by (simp add: match_pass_def)
  then show ?thesis using Some r f by simp
qed

end
